theory Spec2Isabelle
  imports Main "HOL-Library.Word" "HOL-Library.Sublist"
begin

section \<open>JavaScript strings\<close>

text \<open>
  A JavaScript string is a sequence of 16-bit code units; \<open>length\<close>, \<open>indexOf\<close>,
  \<open>slice\<close>, \<open>trim\<close> and \<open>===\<close> all work on code units. String constants of the
  source are written \<open>lit ''...''\<close>.
\<close>

type_synonym jsstring = "16 word list"

definition lit :: "string \<Rightarrow> jsstring" where
  "lit s = map of_char s"

text \<open>
  The code units that \<open>String.prototype.trim\<close> strips and that the regular expression
  class \<open>\s\<close> matches: ECMAScript WhiteSpace and LineTerminator.
\<close>

definition isWhiteSpace :: "16 word \<Rightarrow> bool" where
  "isWhiteSpace c =
     (c = 0x09 \<or> c = 0x0A \<or> c = 0x0B \<or> c = 0x0C \<or> c = 0x0D \<or> c = 0x20 \<or> c = 0xA0
      \<or> c = 0x1680 \<or> (0x2000 \<le> c \<and> c \<le> 0x200A) \<or> c = 0x2028 \<or> c = 0x2029
      \<or> c = 0x202F \<or> c = 0x205F \<or> c = 0x3000 \<or> c = 0xFEFF)"

definition trim :: "jsstring \<Rightarrow> jsstring" where
  "trim s = rev (dropWhile isWhiteSpace (rev (dropWhile isWhiteSpace s)))"

text \<open>\<open>s.split(/\s+/)[0]\<close>: the code units before the first run of white space.\<close>

definition splitWsFirst :: "jsstring \<Rightarrow> jsstring" where
  "splitWsFirst s = takeWhile (\<lambda>c. \<not> isWhiteSpace c) s"

definition slash :: "16 word" where
  "slash = 0x2F"

section \<open>Node's \<open>path\<close> module\<close>

text \<open>
  \<open>path.sep\<close>, \<open>path.isAbsolute\<close>, \<open>path.basename\<close> and \<open>path.resolve\<close> are
  library functions of Node.js. \<open>path\<close> is \<open>path.win32\<close> when \<open>process.platform\<close> is
  \<open>win32\<close> and \<open>path.posix\<close> on every other platform. \<open>sep\<close>, \<open>isAbsolute\<close> and
  \<open>resolve\<close> are modelled after \<open>path.posix\<close> only, \<open>basename\<close> after both.
\<close>

datatype platform = Posix | Win32

definition sep :: jsstring where
  "sep = [slash]"

definition isAbsolute :: "jsstring \<Rightarrow> bool" where
  "isAbsolute p = (case p of [] \<Rightarrow> False | c # _ \<Rightarrow> c = slash)"

text \<open>
  \<open>path.posix.basename(p)\<close>: trailing slashes are ignored, and what follows the last
  remaining slash is returned.
\<close>

definition posix_basename :: "jsstring \<Rightarrow> jsstring" where
  "posix_basename p =
     rev (takeWhile (\<lambda>c. c \<noteq> slash) (dropWhile (\<lambda>c. c = slash) (rev p)))"

text \<open>
  \<open>path.win32.basename(p)\<close>: both the slash and the backslash separate; when the path
  starts with a drive prefix, a letter followed by a colon, the scan from the end stops
  after that prefix; trailing separators are ignored, and what follows the last remaining
  separator is returned.
\<close>

definition backslash :: "16 word" where
  "backslash = 0x5C"

definition colon :: "16 word" where
  "colon = 0x3A"

definition isPathSeparator :: "16 word \<Rightarrow> bool" where
  "isPathSeparator c = (c = slash \<or> c = backslash)"

definition isWindowsDeviceRoot :: "16 word \<Rightarrow> bool" where
  "isWindowsDeviceRoot c = ((0x41 \<le> c \<and> c \<le> 0x5A) \<or> (0x61 \<le> c \<and> c \<le> 0x7A))"

definition hasDrivePrefix :: "jsstring \<Rightarrow> bool" where
  "hasDrivePrefix p = (case p of c # d # _ \<Rightarrow> isWindowsDeviceRoot c \<and> d = colon | _ \<Rightarrow> False)"

definition win32_basename :: "jsstring \<Rightarrow> jsstring" where
  "win32_basename p =
     (let scanned = if hasDrivePrefix p then drop 2 p else p
      in rev (takeWhile (\<lambda>c. \<not> isPathSeparator c) (dropWhile isPathSeparator (rev scanned))))"

definition basename :: "platform \<Rightarrow> jsstring \<Rightarrow> jsstring" where
  "basename pf p = (case pf of Posix \<Rightarrow> posix_basename p | Win32 \<Rightarrow> win32_basename p)"

text \<open>\<open>p.split("/")\<close>.\<close>

fun splitSlash :: "jsstring \<Rightarrow> jsstring list" where
  "splitSlash [] = [[]]"
| "splitSlash (c # cs) =
     (if c = slash then [] # splitSlash cs
      else (case splitSlash cs of [] \<Rightarrow> [[c]] | seg # segs \<Rightarrow> (c # seg) # segs))"

text \<open>\<open>segs.join("/")\<close>.\<close>

fun joinSlash :: "jsstring list \<Rightarrow> jsstring" where
  "joinSlash [] = []"
| "joinSlash [seg] = seg"
| "joinSlash (seg # segs) = seg @ slash # joinSlash segs"

text \<open>
  One step of Node's \<open>normalizeString\<close>, on the stack of segments kept so far (last
  segment first): empty segments and \<open>.\<close> are skipped; \<open>..\<close> removes the last kept
  segment, unless there is none or it is itself \<open>..\<close>, in which case it is kept when
  \<open>allowAboveRoot\<close> holds and dropped otherwise.
\<close>

definition normStep :: "bool \<Rightarrow> jsstring list \<Rightarrow> jsstring \<Rightarrow> jsstring list" where
  "normStep allowAboveRoot stack seg =
     (if seg = [] \<or> seg = lit ''.'' then stack
      else if seg = lit ''..'' then
        (case stack of
           [] \<Rightarrow> if allowAboveRoot then [lit ''..''] else []
         | seg0 # rest \<Rightarrow>
             if seg0 = lit ''..'' then (if allowAboveRoot then lit ''..'' # stack else stack)
             else rest)
      else seg # stack)"

definition normalizeString :: "jsstring \<Rightarrow> bool \<Rightarrow> jsstring" where
  "normalizeString p allowAboveRoot =
     joinSlash (rev (foldl (normStep allowAboveRoot) [] (splitSlash p)))"

text \<open>
  The loop of \<open>path.resolve\<close>: the arguments are visited from the last to the first and
  then the current directory, each non-empty one put in front of what has been collected,
  until an absolute one has been taken.
\<close>

fun resolveLoop :: "jsstring list \<Rightarrow> jsstring \<Rightarrow> jsstring \<times> bool" where
  "resolveLoop [] resolvedPath = (resolvedPath, False)"
| "resolveLoop (p # ps) resolvedPath =
     (if p = [] then resolveLoop ps resolvedPath
      else if isAbsolute p then (p @ slash # resolvedPath, True)
      else resolveLoop ps (p @ slash # resolvedPath))"

definition resolve :: "jsstring \<Rightarrow> jsstring list \<Rightarrow> jsstring" where
  "resolve cwd args =
     (case resolveLoop (rev args @ [cwd]) [] of
        (resolvedPath, resolvedAbsolute) \<Rightarrow>
          (let n = normalizeString resolvedPath (\<not> resolvedAbsolute)
           in if resolvedAbsolute then slash # n
              else if n \<noteq> [] then n else lit ''.''))"

section \<open>Security guard (security.ts)\<close>

datatype js_error = Error jsstring | TypeError jsstring

text \<open>
  \<open>resolveWorkspacePath\<close>: \<open>workspaceFolders\<close> holds the \<open>fsPath\<close> of each open
  workspace folder (\<open>None\<close> when \<open>vscode.workspace.workspaceFolders\<close> is undefined),
  \<open>cwd\<close> is the process's current directory, which \<open>path.resolve\<close> consults. The result
  is the path of the returned file URI.
\<close>

definition resolveWorkspacePath ::
  "jsstring list option \<Rightarrow> jsstring \<Rightarrow> jsstring \<Rightarrow> js_error + jsstring" where
  "resolveWorkspacePath workspaceFolders cwd relativePath =
     (case workspaceFolders of
        None \<Rightarrow> Inl (Error (lit ''No workspace folder open''))
      | Some [] \<Rightarrow> Inl (Error (lit ''No workspace folder open''))
      | Some (rootPath # _) \<Rightarrow>
          if isAbsolute relativePath
          then Inl (Error (lit ''Absolute paths not allowed: '' @ relativePath))
          else
            (let resolved = resolve cwd [rootPath, relativePath];
                 normalizedRoot = resolve cwd [rootPath] @ sep;
                 normalizedResolved = resolve cwd [resolved]
             in if normalizedResolved \<noteq> resolve cwd [rootPath]
                   \<and> \<not> prefix normalizedRoot normalizedResolved
                then Inl (Error (lit ''Path escapes workspace: '' @ relativePath))
                else Inr resolved))"

text \<open>\<open>isCommandAllowed\<close>, on the platform \<open>pf\<close> that decides what \<open>path.basename\<close> is.\<close>

definition isCommandAllowed :: "platform \<Rightarrow> jsstring \<Rightarrow> jsstring list \<Rightarrow> bool" where
  "isCommandAllowed pf command allowlist =
     (let baseCmd = splitWsFirst (trim command)
      in if baseCmd = [] then False
         else
           (let baseName = basename pf baseCmd
            in list_ex (\<lambda>allowed. allowed = lit ''*'' \<or> baseName = allowed
                                   \<or> baseName = allowed @ lit ''.exe'') allowlist))"

section \<open>JavaScript values\<close>

text \<open>
  The values that cross the wire and the handler boundary are JSON values, and
  \<open>undefined\<close>. An object is the list of its own properties. Numbers are modelled as
  integers, which JavaScript prints in decimal.
\<close>

datatype json =
    JUndefined
  | JNull
  | JBool bool
  | JNum int
  | JStr jsstring
  | JArr "json list"
  | JObj "(jsstring \<times> json) list"

text \<open>
  Reading a property \<open>v.k\<close> for a name \<open>k\<close> that no prototype defines: the own
  property of an object, \<open>undefined\<close> otherwise. (On \<open>null\<close> and \<open>undefined\<close> the
  access throws; the callers below say so where the source can get there.)
\<close>

definition jget :: "json \<Rightarrow> jsstring \<Rightarrow> json" where
  "jget v k =
     (case v of
        JObj props \<Rightarrow> (case map_of props k of Some x \<Rightarrow> x | None \<Rightarrow> JUndefined)
      | _ \<Rightarrow> JUndefined)"

definition truthy :: "json \<Rightarrow> bool" where
  "truthy v =
     (case v of
        JUndefined \<Rightarrow> False
      | JNull \<Rightarrow> False
      | JBool b \<Rightarrow> b
      | JNum n \<Rightarrow> n \<noteq> 0
      | JStr s \<Rightarrow> s \<noteq> []
      | JArr _ \<Rightarrow> True
      | JObj _ \<Rightarrow> True)"

text \<open>\<open>a || b\<close>.\<close>

definition jOr :: "json \<Rightarrow> json \<Rightarrow> json" where
  "jOr a b = (if truthy a then a else b)"

function natToString :: "nat \<Rightarrow> jsstring" where
  "natToString n =
     (if n < 10 then [of_nat (48 + n)]
      else natToString (n div 10) @ [of_nat (48 + n mod 10)])"
  by pat_completeness auto
termination
  by (relation "measure (\<lambda>n. n)") auto

definition intToString :: "int \<Rightarrow> jsstring" where
  "intToString i = (if i < 0 then 0x2D # natToString (nat (- i)) else natToString (nat i))"

text \<open>
  \<open>String(v)\<close> and \<open>`${v}`\<close>. An object is converted by its \<open>toString\<close> method: an
  object that has an own property called \<open>toString\<close> (a JSON value, so not a function)
  hides \<open>Object.prototype.toString\<close>, its \<open>valueOf\<close> yields no primitive either, and
  the conversion throws a TypeError. An array joins the conversions of its elements with
  commas, \<open>null\<close> and \<open>undefined\<close> elements counting as empty.
\<close>

fun toStringJS :: "json \<Rightarrow> js_error + jsstring"
  and joinElems :: "json list \<Rightarrow> js_error + jsstring" where
  "toStringJS JUndefined = Inr (lit ''undefined'')"
| "toStringJS JNull = Inr (lit ''null'')"
| "toStringJS (JBool b) = Inr (if b then lit ''true'' else lit ''false'')"
| "toStringJS (JNum n) = Inr (intToString n)"
| "toStringJS (JStr s) = Inr s"
| "toStringJS (JArr xs) = joinElems xs"
| "toStringJS (JObj props) =
     (if lit ''toString'' \<in> fst ` set props
      then Inl (TypeError (lit ''Cannot convert object to primitive value''))
      else Inr (lit ''[object Object]''))"
| "joinElems [] = Inr []"
| "joinElems (x # xs) =
     (case (if x = JNull \<or> x = JUndefined then Inr [] else toStringJS x) of
        Inl e \<Rightarrow> Inl e
      | Inr s \<Rightarrow>
          (if xs = [] then Inr s
           else (case joinElems xs of Inl e \<Rightarrow> Inl e | Inr r \<Rightarrow> Inr (s @ lit '','' @ r))))"

text \<open>Sequencing of computations that may throw.\<close>

definition bindE :: "js_error + 'a \<Rightarrow> ('a \<Rightarrow> js_error + 'b) \<Rightarrow> js_error + 'b" where
  "bindE m f = (case m of Inl e \<Rightarrow> Inl e | Inr x \<Rightarrow> f x)"

section \<open>Activity store (activity-store.ts)\<close>

datatype activity_status = Running | StatusOk | StatusError

text \<open>
  The display labels of \<open>CATEGORY_MAP\<close> and the fallback label. \<open>CATEGORY_MAP\<close> is a
  plain object, so a prefix that names a member of \<open>Object.prototype\<close> finds that
  member instead of a label.
\<close>

datatype category =
    CatFile | CatEditor | CatLanguage | CatGit | CatTest | CatDebug | CatTerminal
  | CatDiagnostics | CatWorkspace | CatOther | CatInherited jsstring

record activity =
  act_id :: nat
  act_command :: jsstring
  act_category :: category
  act_intent :: jsstring
  act_params :: json
  act_status :: activity_status
  act_startedAt :: int
  act_finishedAt :: "int option"
  act_durationMs :: "int option"
  act_payload :: "json option"
  act_error :: "jsstring option"

text \<open>\<open>s.split(".")\<close> and \<open>parts.join(".")\<close>.\<close>

fun splitOn :: "16 word \<Rightarrow> jsstring \<Rightarrow> jsstring list" where
  "splitOn d [] = [[]]"
| "splitOn d (c # cs) =
     (if c = d then [] # splitOn d cs
      else (case splitOn d cs of [] \<Rightarrow> [[c]] | seg # segs \<Rightarrow> (c # seg) # segs))"

fun joinWith :: "16 word \<Rightarrow> jsstring list \<Rightarrow> jsstring" where
  "joinWith d [] = []"
| "joinWith d [seg] = seg"
| "joinWith d (seg # segs) = seg @ d # joinWith d segs"

definition objectPrototypeMembers :: "jsstring list" where
  "objectPrototypeMembers =
     [lit ''constructor'', lit ''__proto__'', lit ''hasOwnProperty'', lit ''isPrototypeOf'',
      lit ''propertyIsEnumerable'', lit ''toLocaleString'', lit ''toString'', lit ''valueOf'',
      lit ''__defineGetter__'', lit ''__defineSetter__'', lit ''__lookupGetter__'',
      lit ''__lookupSetter__'']"

definition getCategory :: "jsstring \<Rightarrow> category" where
  "getCategory command =
     (let prefix = joinWith 0x2E (take 2 (splitOn 0x2E command))
      in if prefix = lit ''vscode.file'' then CatFile
         else if prefix = lit ''vscode.dir'' then CatFile
         else if prefix = lit ''vscode.editor'' then CatEditor
         else if prefix = lit ''vscode.lang'' then CatLanguage
         else if prefix = lit ''vscode.code'' then CatLanguage
         else if prefix = lit ''vscode.git'' then CatGit
         else if prefix = lit ''vscode.test'' then CatTest
         else if prefix = lit ''vscode.debug'' then CatDebug
         else if prefix = lit ''vscode.terminal'' then CatTerminal
         else if prefix = lit ''vscode.diagnostics'' then CatDiagnostics
         else if prefix = lit ''vscode.workspace'' then CatWorkspace
         else if prefix \<in> set objectPrototypeMembers then CatInherited prefix
         else CatOther)"

text \<open>The horizontal ellipsis U+2026 and the arrow U+2192 of the source's literals.\<close>

definition ellipsis :: jsstring where
  "ellipsis = [0x2026]"

definition arrow :: jsstring where
  "arrow = [0x2192]"

definition shortPath :: "json \<Rightarrow> jsstring" where
  "shortPath p =
     (case p of
        JStr s \<Rightarrow>
          if s = [] then []
          else (let parts = splitSlash s
                in if length parts > 3
                   then ellipsis @ lit ''/'' @ joinSlash (drop (length parts - 2) parts)
                   else s)
      | _ \<Rightarrow> [])"

definition truncStr :: "jsstring \<Rightarrow> nat \<Rightarrow> jsstring" where
  "truncStr s mx = (if length s > mx then take mx s @ ellipsis else s)"

text \<open>\<open>s.indexOf(t, from)\<close> for \<open>from\<close> within the string; \<open>None\<close> stands for -1.\<close>

fun indexOfFrom :: "jsstring \<Rightarrow> jsstring \<Rightarrow> nat \<Rightarrow> nat option" where
  "indexOfFrom [] t i = (if t = [] then Some i else None)"
| "indexOfFrom (c # cs) t i =
     (if prefix t (c # cs) then Some i else indexOfFrom cs t (Suc i))"

definition indexOf :: "jsstring \<Rightarrow> jsstring \<Rightarrow> nat \<Rightarrow> nat option" where
  "indexOf s t from = indexOfFrom (drop (min from (length s)) s) t (min from (length s))"

text \<open>\<open>s.replace(t, r)\<close> for a string pattern: the first occurrence is replaced.\<close>

definition replaceFirst :: "jsstring \<Rightarrow> jsstring \<Rightarrow> jsstring \<Rightarrow> jsstring" where
  "replaceFirst s t r =
     (case indexOf s t 0 of
        None \<Rightarrow> s
      | Some i \<Rightarrow> take i s @ r @ drop (i + length t) s)"

text \<open>
  \<open>describeIntent\<close>: \<open>p\<close> is \<open>params || {}\<close>. A template literal converts each
  interpolated value to a string, which may throw.
\<close>

definition withPath :: "string \<Rightarrow> json \<Rightarrow> js_error + jsstring" where
  "withPath label p = Inr (lit label @ shortPath (jget p (lit ''path'')))"

definition withPathLine :: "string \<Rightarrow> json \<Rightarrow> js_error + jsstring" where
  "withPathLine label p =
     bindE (toStringJS (jget p (lit ''line'')))
       (\<lambda>line. Inr (lit label @ shortPath (jget p (lit ''path'')) @ lit '':'' @ line))"

definition withTrunc :: "string \<Rightarrow> json \<Rightarrow> nat \<Rightarrow> js_error + jsstring" where
  "withTrunc label v mx =
     bindE (toStringJS (jOr v (JStr []))) (\<lambda>s. Inr (lit label @ truncStr s mx))"

definition describeIntent :: "jsstring \<Rightarrow> json \<Rightarrow> js_error + jsstring" where
  "describeIntent command params =
     (let p = jOr params (JObj []); path = jget p (lit ''path'')
      in if command = lit ''vscode.file.read'' then withPath ''Read '' p
         else if command = lit ''vscode.file.write'' then withPath ''Write '' p
         else if command = lit ''vscode.file.edit'' then withPath ''Edit '' p
         else if command = lit ''vscode.file.delete'' then withPath ''Delete '' p
         else if command = lit ''vscode.dir.list'' then
           Inr (lit ''List '' @ (if shortPath path \<noteq> [] then shortPath path else lit ''/''))
         else if command = lit ''vscode.editor.active'' then Inr (lit ''Get active editor'')
         else if command = lit ''vscode.editor.openFiles'' then Inr (lit ''List open files'')
         else if command = lit ''vscode.editor.selections'' then Inr (lit ''Get selections'')
         else if command = lit ''vscode.diagnostics.get'' then
           (if truthy path then withPath ''Diagnostics '' p else Inr (lit ''Get diagnostics''))
         else if command = lit ''vscode.workspace.info'' then Inr (lit ''Workspace info'')
         else if command = lit ''vscode.lang.definition'' then withPathLine ''Go to definition '' p
         else if command = lit ''vscode.lang.references'' then withPathLine ''Find references '' p
         else if command = lit ''vscode.lang.hover'' then withPathLine ''Hover info '' p
         else if command = lit ''vscode.lang.symbols'' then
           (if truthy path then withPath ''Symbols in '' p
            else bindE (toStringJS (jget p (lit ''query'')))
                   (\<lambda>q. Inr (lit ''Search symbols '' @ [0x22] @ q @ [0x22])))
         else if command = lit ''vscode.lang.rename'' then
           bindE (toStringJS (jget p (lit ''newName'')))
             (\<lambda>n. Inr (lit ''Rename '' @ arrow @ lit '' '' @ n))
         else if command = lit ''vscode.lang.codeActions'' then withPathLine ''Code actions '' p
         else if command = lit ''vscode.lang.applyCodeAction'' then Inr (lit ''Apply code action'')
         else if command = lit ''vscode.code.format'' then withPath ''Format '' p
         else if command = lit ''vscode.git.status'' then Inr (lit ''Git status'')
         else if command = lit ''vscode.git.diff'' then
           (if truthy path then withPath ''Diff '' p else Inr (lit ''Diff all''))
         else if command = lit ''vscode.git.log'' then
           (if truthy (jget p (lit ''count''))
            then bindE (toStringJS (jget p (lit ''count'')))
                   (\<lambda>c. Inr (lit ''Git log'' @ lit '' ('' @ c @ lit '')''))
            else Inr (lit ''Git log''))
         else if command = lit ''vscode.git.blame'' then withPath ''Blame '' p
         else if command = lit ''vscode.git.stage'' then
           Inr (lit ''Stage '' @ (if shortPath path \<noteq> [] then shortPath path else lit ''all''))
         else if command = lit ''vscode.git.unstage'' then
           Inr (lit ''Unstage '' @ (if shortPath path \<noteq> [] then shortPath path else lit ''all''))
         else if command = lit ''vscode.git.commit'' then
           withTrunc ''Commit: '' (jget p (lit ''message'')) 40
         else if command = lit ''vscode.git.stash'' then
           bindE (toStringJS (jOr (jget p (lit ''action'')) (JStr (lit ''push''))))
             (\<lambda>a. Inr (lit ''Stash '' @ a))
         else if command = lit ''vscode.test.list'' then Inr (lit ''List tests'')
         else if command = lit ''vscode.test.run'' then
           bindE (toStringJS (jOr (jget p (lit ''pattern'')) (JStr [])))
             (\<lambda>a. Inr (lit ''Run tests '' @ a))
         else if command = lit ''vscode.test.results'' then Inr (lit ''Test results'')
         else if command = lit ''vscode.debug.launch'' then
           bindE (toStringJS (jOr (jget p (lit ''config'')) (JStr [])))
             (\<lambda>a. Inr (lit ''Launch debug '' @ a))
         else if command = lit ''vscode.debug.stop'' then Inr (lit ''Stop debug'')
         else if command = lit ''vscode.debug.breakpoint'' then withPathLine ''Breakpoint '' p
         else if command = lit ''vscode.debug.evaluate'' then
           withTrunc ''Eval: '' (jget p (lit ''expression'')) 30
         else if command = lit ''vscode.debug.stackTrace'' then Inr (lit ''Stack trace'')
         else if command = lit ''vscode.debug.variables'' then Inr (lit ''Variables'')
         else if command = lit ''vscode.debug.status'' then Inr (lit ''Debug status'')
         else if command = lit ''vscode.terminal.run'' then
           withTrunc ''Run: '' (jget p (lit ''command'')) 60
         else if command = lit ''vscode.agent.run'' then
           withTrunc ''Agent: '' (jget p (lit ''prompt'')) 50
         else if command = lit ''vscode.agent.status'' then Inr (lit ''Agent status'')
         else if command = lit ''vscode.agent.setup'' then Inr (lit ''Agent setup'')
         else Inr (replaceFirst command (lit ''vscode.'') []))"

text \<open>
  The store: the records, newest first, the next id, the bound on the number of
  records, and the number of \<open>change\<close> events emitted so far.
\<close>

record activityStore =
  activities :: "activity list"
  nextId :: nat
  maxEntries :: nat
  changes :: nat

definition newActivityStore :: activityStore where
  "newActivityStore = \<lparr> activities = [], nextId = 1, maxEntries = 200, changes = 0 \<rparr>"

text \<open>
  \<open>start\<close>: \<open>now\<close> is what \<open>Date.now()\<close> returns. The id is taken, and \<open>nextId\<close>
  advanced, before the record is built; when building it throws, nothing else happens.
\<close>

definition newActivity :: "nat \<Rightarrow> jsstring \<Rightarrow> jsstring \<Rightarrow> json \<Rightarrow> int \<Rightarrow> activity" where
  "newActivity ident command intent params now =
     \<lparr> act_id = ident, act_command = command, act_category = getCategory command,
       act_intent = intent, act_params = params, act_status = Running, act_startedAt = now,
       act_finishedAt = None, act_durationMs = None, act_payload = None, act_error = None \<rparr>"

definition start :: "activityStore \<Rightarrow> jsstring \<Rightarrow> json \<Rightarrow> int \<Rightarrow> (js_error + nat) \<times> activityStore" where
  "start st command params now =
     (let ident = nextId st;
          st1 = st\<lparr> nextId := nextId st + 1 \<rparr>
      in case describeIntent command params of
           Inl e \<Rightarrow> (Inl e, st1)
         | Inr intent \<Rightarrow>
             (let unshifted = newActivity ident command intent params now # activities st1;
                  truncated = (if length unshifted > maxEntries st1
                               then take (maxEntries st1) unshifted else unshifted)
              in (Inr ident, st1\<lparr> activities := truncated, changes := changes st1 + 1 \<rparr>)))"

text \<open>
  \<open>finish\<close>: the first record with the id is updated in place; \<open>result\<close> is
  \<open>undefined\<close> and \<open>err\<close> is \<open>None\<close> when the caller leaves them out.
\<close>

fun finishFirst :: "nat \<Rightarrow> bool \<Rightarrow> json \<Rightarrow> jsstring option \<Rightarrow> int \<Rightarrow> activity list \<Rightarrow> activity list" where
  "finishFirst ident ok result err now [] = []"
| "finishFirst ident ok result err now (a # as) =
     (if act_id a = ident
      then a\<lparr> act_status := (if ok then StatusOk else StatusError),
              act_finishedAt := Some now,
              act_durationMs := Some (now - act_startedAt a),
              act_payload := (if ok then Some result else act_payload a),
              act_error := (case err of
                              None \<Rightarrow> act_error a
                            | Some m \<Rightarrow> if m \<noteq> [] then Some m else act_error a) \<rparr> # as
      else a # finishFirst ident ok result err now as)"

definition finish :: "activityStore \<Rightarrow> nat \<Rightarrow> bool \<Rightarrow> json \<Rightarrow> jsstring option \<Rightarrow> int \<Rightarrow> activityStore" where
  "finish st ident ok result err now =
     (if list_ex (\<lambda>a. act_id a = ident) (activities st)
      then st\<lparr> activities := finishFirst ident ok result err now (activities st),
                changes := changes st + 1 \<rparr>
      else st)"

definition getAll :: "activityStore \<Rightarrow> activity list" where
  "getAll st = activities st"

definition clear :: "activityStore \<Rightarrow> activityStore" where
  "clear st = st\<lparr> activities := [], changes := changes st + 1 \<rparr>"

text \<open>The operations of the store, and a sequence of them applied in order.\<close>

datatype store_op =
    OpStart jsstring json int
  | OpFinish nat bool json "jsstring option" int
  | OpClear

fun applyOp :: "activityStore \<Rightarrow> store_op \<Rightarrow> activityStore" where
  "applyOp st (OpStart command params now) = snd (start st command params now)"
| "applyOp st (OpFinish ident ok result err now) = finish st ident ok result err now"
| "applyOp st OpClear = clear st"

definition runStore :: "store_op list \<Rightarrow> activityStore \<Rightarrow> activityStore" where
  "runStore ops st = foldl applyOp st ops"

text \<open>
  What every reachable store satisfies: at most \<open>maxEntries\<close> = 200 records, ids strictly
  decreasing from the front (newest first), all below \<open>nextId\<close>.
\<close>

definition storeInv :: "activityStore \<Rightarrow> bool" where
  "storeInv st \<longleftrightarrow>
     maxEntries st = 200 \<and> length (activities st) \<le> 200
     \<and> sorted_wrt (\<lambda>a b. a > b) (map act_id (activities st))
     \<and> list_all (\<lambda>a. act_id a < nextId st) (activities st)"

section \<open>Command registry and dispatcher (commands/registry.ts)\<close>

text \<open>The names under which handlers are registered, in the order of registration.\<close>

definition registeredCommands :: "jsstring list" where
  "registeredCommands =
     [lit ''vscode.file.read'', lit ''vscode.file.write'', lit ''vscode.file.edit'',
      lit ''vscode.file.delete'', lit ''vscode.dir.list'', lit ''vscode.editor.active'',
      lit ''vscode.diagnostics.get'', lit ''vscode.workspace.info'',
      lit ''vscode.lang.definition'', lit ''vscode.lang.references'', lit ''vscode.lang.hover'',
      lit ''vscode.lang.symbols'', lit ''vscode.lang.rename'', lit ''vscode.lang.codeActions'',
      lit ''vscode.lang.applyCodeAction'', lit ''vscode.code.format'',
      lit ''vscode.editor.openFiles'', lit ''vscode.editor.selections'',
      lit ''vscode.test.list'', lit ''vscode.test.run'', lit ''vscode.test.results'',
      lit ''vscode.git.status'', lit ''vscode.git.diff'', lit ''vscode.git.log'',
      lit ''vscode.git.blame'', lit ''vscode.git.stage'', lit ''vscode.git.unstage'',
      lit ''vscode.git.commit'', lit ''vscode.git.stash'', lit ''vscode.debug.launch'',
      lit ''vscode.debug.stop'', lit ''vscode.debug.breakpoint'', lit ''vscode.debug.evaluate'',
      lit ''vscode.debug.stackTrace'', lit ''vscode.debug.variables'', lit ''vscode.debug.status'',
      lit ''vscode.terminal.run'', lit ''vscode.agent.run'', lit ''vscode.agent.setup'',
      lit ''vscode.agent.status'']"

text \<open>
  What a call of an asynchronous function comes to: it resolves with a value, or it
  throws or rejects with an \<open>Error\<close> object or with some other value.
\<close>

datatype thrown = ThrownError js_error | ThrownValue json

datatype outcome = Resolves json | Rejects thrown

definition messageOf :: "js_error \<Rightarrow> jsstring" where
  "messageOf e = (case e of Error m \<Rightarrow> m | TypeError m \<Rightarrow> m)"

text \<open>\<open>err instanceof Error ? err.message : String(err)\<close>.\<close>

definition thrownMessage :: "thrown \<Rightarrow> js_error + jsstring" where
  "thrownMessage err =
     (case err of ThrownError e \<Rightarrow> Inr (messageOf e) | ThrownValue v \<Rightarrow> toStringJS v)"

text \<open>The result envelope: \<open>{ok: true, payload}\<close> or \<open>{ok: false, error: {code, message}}\<close>.\<close>

datatype envelope = EnvOk json | EnvFail jsstring jsstring

text \<open>
  \<open>dispatchCommand\<close>: \<open>handler command params\<close> is what the handler registered under
  \<open>command\<close> comes to when called with \<open>params\<close>; \<open>now\<close> and \<open>fin\<close> are the clock
  readings when the activity starts and finishes. The result is the envelope the
  returned promise resolves with, or the error it rejects with, and the activity store
  afterwards.
\<close>

definition dispatchCommand ::
  "(jsstring \<Rightarrow> json \<Rightarrow> outcome) \<Rightarrow> activityStore \<Rightarrow> jsstring \<Rightarrow> json \<Rightarrow> int \<Rightarrow> int
     \<Rightarrow> (js_error + envelope) \<times> activityStore" where
  "dispatchCommand handler st command params now fin =
     (if command \<notin> set registeredCommands
      then (Inr (EnvFail (lit ''UNKNOWN_COMMAND'') (lit ''Unknown command: '' @ command)), st)
      else
        (case start st command params now of
           (Inl e, st1) \<Rightarrow> (Inl e, st1)
         | (Inr activityId, st1) \<Rightarrow>
             (case handler command params of
                Resolves payload \<Rightarrow>
                  (Inr (EnvOk payload), finish st1 activityId True payload None fin)
              | Rejects err \<Rightarrow>
                  (case thrownMessage err of
                     Inl e \<Rightarrow> (Inl e, st1)
                   | Inr message \<Rightarrow>
                       (Inr (EnvFail (lit ''COMMAND_ERROR'') message),
                        finish st1 activityId False JUndefined (Some message) fin)))))"



section \<open>Gateway client (gateway-client.ts)\<close>

datatype connection_state = Disconnected | Connecting | Connected

text \<open>The socket \<open>this.ws\<close> refers to, by its \<open>readyState\<close>; \<open>None\<close> is \<open>null\<close>.\<close>

datatype ws_state = WsConnecting | WsOpen | WsClosing

text \<open>
  What the promise of an outstanding request continues with once it settles: the
  handshake's \<open>then\<close>/\<open>catch\<close> of \<open>sendConnect\<close>, or the \<open>try\<close>/\<open>catch\<close> of
  \<open>sendInvokeResult\<close>.
\<close>

datatype pending_kind = PConnect | PInvokeResult

record invoke_frame =
  if_id :: jsstring
  if_nodeId :: jsstring
  if_command :: jsstring
  if_paramsJSON :: "jsstring option"
  if_timeoutMs :: "int option"

record connect_params =
  cp_minProtocol :: int
  cp_maxProtocol :: int
  cp_clientId :: jsstring
  cp_displayName :: jsstring
  cp_version :: jsstring
  cp_platform :: jsstring
  cp_mode :: jsstring
  cp_instanceId :: jsstring
  cp_caps :: "jsstring list"
  cp_commands :: "jsstring list"
  cp_authToken :: "jsstring option"
  cp_role :: jsstring
  cp_scopes :: "jsstring list"
  cp_deviceId :: jsstring
  cp_publicKey :: jsstring
  cp_signature :: jsstring
  cp_signedAt :: int
  cp_nonce :: "jsstring option"

text \<open>
  The parameters of a \<open>node.invoke.result\<close> request; \<open>ir_payloadJSON\<close> and \<open>ir_error\<close>
  are \<open>None\<close> when the property is not set.
\<close>

record invoke_result =
  ir_id :: jsstring
  ir_nodeId :: jsstring
  ir_ok :: json
  ir_payloadJSON :: "jsstring option"
  ir_error :: "json option"

datatype request_params = ConnectParams connect_params | InvokeResultParams invoke_result

text \<open>A frame \<open>{type: "req", id, method, params}\<close> handed to \<open>ws.send\<close>.\<close>

record req_frame =
  rf_id :: jsstring
  rf_method :: jsstring
  rf_params :: request_params

text \<open>
  The options of the client together with what it takes from its environment:
  \<open>JSON.parse\<close> (\<open>None\<close> when it throws) and \<open>JSON.stringify\<close>, the device identity
  that device-identity.ts loads (its id, its public key in the transport encoding, and
  signing with its private key), and \<open>process.platform\<close>.
\<close>

record client_opts =
  opt_host :: jsstring
  opt_port :: int
  opt_tls :: bool
  opt_token :: "jsstring option"
  opt_displayName :: jsstring
  opt_commands :: "jsstring list"
  opt_caps :: "jsstring list"
  env_jsonParse :: "jsstring \<Rightarrow> json option"
  env_jsonStringify :: "json \<Rightarrow> jsstring"
  env_deviceId :: jsstring
  env_publicKey :: jsstring
  env_sign :: "jsstring \<Rightarrow> jsstring"
  env_platform :: jsstring

text \<open>
  The fields of the client, and what it has done so far: the frames sent, the URLs of
  the sockets opened, the delays of the reconnects scheduled, the state changes
  notified, the calls of \<open>onInvoke\<close> made and those of them that have not settled yet.
  \<open>uuidCounter\<close> numbers the ids that \<open>randomUUID\<close> hands out.
\<close>

record client =
  ws :: "ws_state option"
  pending :: "(jsstring \<times> pending_kind) list"
  closed :: bool
  backoffMs :: nat
  nodeId :: jsstring
  state :: connection_state
  connectNonce :: "jsstring option"
  connectSent :: bool
  connectTimer :: bool
  uuidCounter :: nat
  sent :: "req_frame list"
  sockets :: "jsstring list"
  reconnectDelays :: "nat list"
  stateChanges :: "connection_state list"
  invoked :: "(invoke_frame \<times> json) list"
  inflight :: "(invoke_frame \<times> json) list"

definition newClient :: "jsstring \<Rightarrow> client" where
  "newClient instanceId =
     \<lparr> ws = None, pending = [], closed = False, backoffMs = 1000, nodeId = instanceId,
       state = Disconnected, connectNonce = None, connectSent = False, connectTimer = False,
       uuidCounter = 0, sent = [], sockets = [], reconnectDelays = [], stateChanges = [],
       invoked = [], inflight = [] \<rparr>"

definition setState :: "connection_state \<Rightarrow> client \<Rightarrow> client" where
  "setState st s = s\<lparr> state := st, stateChanges := stateChanges s @ [st] \<rparr>"

text \<open>\<open>this.ws?.close(...)\<close>: the socket, if there is one, starts closing.\<close>

definition closeWs :: "client \<Rightarrow> client" where
  "closeWs s = (case ws s of None \<Rightarrow> s | Some _ \<Rightarrow> s\<lparr> ws := Some WsClosing \<rparr>)"

text \<open>How the promise of a request continues when it is resolved and when it is rejected.\<close>

definition onResolved :: "pending_kind \<Rightarrow> client \<Rightarrow> client" where
  "onResolved k s =
     (case k of
        PConnect \<Rightarrow> setState Connected (s\<lparr> backoffMs := 1000 \<rparr>)
      | PInvokeResult \<Rightarrow> s)"

definition onRejected :: "pending_kind \<Rightarrow> client \<Rightarrow> client" where
  "onRejected k s = (case k of PConnect \<Rightarrow> closeWs s | PInvokeResult \<Rightarrow> s)"

definition uuidString :: "nat \<Rightarrow> jsstring" where
  "uuidString n = lit ''uuid-'' @ natToString n"

text \<open>\<open>Map.prototype.set\<close>: an existing key keeps its place.\<close>

fun mapSet :: "jsstring \<Rightarrow> pending_kind \<Rightarrow> (jsstring \<times> pending_kind) list \<Rightarrow> (jsstring \<times> pending_kind) list" where
  "mapSet k v [] = [(k, v)]"
| "mapSet k v ((k', v') # m) = (if k' = k then (k, v) # m else (k', v') # mapSet k v m)"

text \<open>
  \<open>request\<close>: rejected at once when the socket is not open; otherwise the request is
  registered under a fresh id and its frame is sent.
\<close>

definition request :: "jsstring \<Rightarrow> request_params \<Rightarrow> pending_kind \<Rightarrow> client \<Rightarrow> client" where
  "request method params k s =
     (if ws s \<noteq> Some WsOpen then onRejected k s
      else
        (let ident = uuidString (uuidCounter s)
         in s\<lparr> uuidCounter := uuidCounter s + 1,
               pending := mapSet ident k (pending s),
               sent := sent s @ [\<lparr> rf_id = ident, rf_method = method, rf_params = params \<rparr>] \<rparr>))"

definition flushPending :: "client \<Rightarrow> client" where
  "flushPending s = foldl (\<lambda>s' (_, k). onRejected k s') (s\<lparr> pending := [] \<rparr>) (pending s)"

definition scheduleReconnect :: "client \<Rightarrow> client" where
  "scheduleReconnect s =
     (if closed s then s
      else s\<lparr> reconnectDelays := reconnectDelays s @ [backoffMs s],
               backoffMs := min (backoffMs s * 2) 30000 \<rparr>)"

definition connect :: "client_opts \<Rightarrow> client \<Rightarrow> client" where
  "connect opts s =
     (if closed s then s
      else
        (let url = (if opt_tls opts then lit ''wss'' else lit ''ws'') @ lit ''://''
                     @ opt_host opts @ lit '':'' @ intToString (opt_port opts);
             s1 = setState Connecting s
         in s1\<lparr> ws := Some WsConnecting, sockets := sockets s1 @ [url] \<rparr>))"

definition startClient :: "client_opts \<Rightarrow> client \<Rightarrow> client" where
  "startClient opts s = connect opts (s\<lparr> closed := False \<rparr>)"

definition stop :: "client \<Rightarrow> client" where
  "stop s =
     setState Disconnected
       (flushPending (s\<lparr> closed := True, connectTimer := False, ws := None \<rparr>))"

definition queueConnect :: "client \<Rightarrow> client" where
  "queueConnect s = s\<lparr> connectNonce := None, connectSent := False, connectTimer := True \<rparr>"

definition joinPipe :: "jsstring list \<Rightarrow> jsstring" where
  "joinPipe parts = joinWith 0x7C parts"

text \<open>\<open>sendConnect\<close>: \<open>now\<close> is what \<open>Date.now()\<close> returns.\<close>

definition sendConnect :: "client_opts \<Rightarrow> int \<Rightarrow> client \<Rightarrow> client" where
  "sendConnect opts now s =
     (if connectSent s then s
      else
        (let s1 = s\<lparr> connectSent := True, connectTimer := False \<rparr>;
             token = (case opt_token opts of
                        None \<Rightarrow> None
                      | Some t \<Rightarrow> if trim t = [] then None else Some (trim t));
             role = lit ''node'';
             scopes = [];
             nonce = connectNonce s1;
             v2 = (case nonce of None \<Rightarrow> False | Some n \<Rightarrow> n \<noteq> []);
             payloadParts =
               [if v2 then lit ''v2'' else lit ''v1'', env_deviceId opts, lit ''node-host'',
                lit ''node'', role, joinWith 0x2C scopes, intToString now,
                (case token of None \<Rightarrow> [] | Some t \<Rightarrow> t)]
               @ (if v2 then [case nonce of None \<Rightarrow> [] | Some n \<Rightarrow> n] else []);
             signature = env_sign opts (joinPipe payloadParts);
             params =
               \<lparr> cp_minProtocol = 3, cp_maxProtocol = 3, cp_clientId = lit ''node-host'',
                 cp_displayName = opt_displayName opts, cp_version = lit ''0.1.0'',
                 cp_platform = env_platform opts, cp_mode = lit ''node'',
                 cp_instanceId = nodeId s1, cp_caps = opt_caps opts,
                 cp_commands = opt_commands opts, cp_authToken = token, cp_role = role,
                 cp_scopes = scopes, cp_deviceId = env_deviceId opts,
                 cp_publicKey = env_publicKey opts, cp_signature = signature,
                 cp_signedAt = now, cp_nonce = nonce \<rparr>
         in request (lit ''connect'') (ConnectParams params) PConnect s1))"

text \<open>\<open>typeof v === "string" ? v.trim() : ""\<close>.\<close>

definition trimmedString :: "json \<Rightarrow> jsstring" where
  "trimmedString v = (case v of JStr s \<Rightarrow> trim s | _ \<Rightarrow> [])"

definition coerceInvokePayload :: "client_opts \<Rightarrow> json \<Rightarrow> invoke_frame option" where
  "coerceInvokePayload opts payload =
     (case payload of
        JObj _ \<Rightarrow>
          (let ident = trimmedString (jget payload (lit ''id''));
               node = trimmedString (jget payload (lit ''nodeId''));
               command = trimmedString (jget payload (lit ''command''))
           in if ident = [] \<or> node = [] \<or> command = [] then None
              else Some
                \<lparr> if_id = ident, if_nodeId = node, if_command = command,
                  if_paramsJSON =
                    (case jget payload (lit ''paramsJSON'') of
                       JStr s \<Rightarrow> Some s
                     | _ \<Rightarrow>
                         if jget payload (lit ''params'') \<noteq> JUndefined
                         then Some (env_jsonStringify opts (jget payload (lit ''params'')))
                         else None),
                  if_timeoutMs =
                    (case jget payload (lit ''timeoutMs'') of JNum n \<Rightarrow> Some n | _ \<Rightarrow> None) \<rparr>)
      | JArr _ \<Rightarrow> None
      | _ \<Rightarrow> None)"

text \<open>
  \<open>handleInvoke\<close> up to its first \<open>await\<close>: the parameters are parsed (a parse failure
  gives \<open>{}\<close>) and \<open>onInvoke\<close> is called.
\<close>

definition invokeParams :: "client_opts \<Rightarrow> invoke_frame \<Rightarrow> json" where
  "invokeParams opts frame =
     (case if_paramsJSON frame of
        None \<Rightarrow> JObj []
      | Some text \<Rightarrow>
          if text = [] then JObj []
          else (case env_jsonParse opts text of None \<Rightarrow> JObj [] | Some v \<Rightarrow> v))"

definition handleInvoke :: "client_opts \<Rightarrow> invoke_frame \<Rightarrow> client \<Rightarrow> client" where
  "handleInvoke opts frame s =
     s\<lparr> invoked := invoked s @ [(frame, invokeParams opts frame)],
       inflight := inflight s @ [(frame, invokeParams opts frame)] \<rparr>"

text \<open>
  \<open>sendInvokeResult\<close>: reading \<open>result.ok\<close> throws when \<open>result\<close> is \<open>null\<close> or
  \<open>undefined\<close>; a rejected request is logged and nothing else.
\<close>

definition sendInvokeResult :: "client_opts \<Rightarrow> invoke_frame \<Rightarrow> json \<Rightarrow> client \<Rightarrow> js_error + client" where
  "sendInvokeResult opts frame result s =
     (if result = JNull \<or> result = JUndefined
      then Inl (TypeError (lit ''Cannot read properties of null or undefined''))
      else
        (let ok = jget result (lit ''ok'');
             payload = jget result (lit ''payload'');
             withPayload = (truthy ok \<and> payload \<noteq> JUndefined);
             params =
               \<lparr> ir_id = if_id frame, ir_nodeId = if_nodeId frame, ir_ok = ok,
                 ir_payloadJSON =
                   (if withPayload then Some (env_jsonStringify opts payload) else None),
                 ir_error =
                   (if \<not> withPayload \<and> \<not> truthy ok then Some (jget result (lit ''error''))
                    else None) \<rparr>
         in Inr (request (lit ''node.invoke.result'') (InvokeResultParams params)
                   PInvokeResult s)))"

text \<open>
  \<open>handleInvoke\<close> from the moment \<open>onInvoke\<close> has settled. When the conversion of a
  thrown value to a message throws in the \<open>catch\<close> block, \<open>handleInvoke\<close> itself
  rejects and no result is sent.
\<close>

definition internalError :: "jsstring \<Rightarrow> json" where
  "internalError message =
     JObj [(lit ''ok'', JBool False),
           (lit ''error'', JObj [(lit ''code'', JStr (lit ''INTERNAL_ERROR'')),
                                 (lit ''message'', JStr message)])]"

definition sendInternalError :: "client_opts \<Rightarrow> invoke_frame \<Rightarrow> thrown \<Rightarrow> client \<Rightarrow> client" where
  "sendInternalError opts frame err s =
     (case thrownMessage err of
        Inl _ \<Rightarrow> s
      | Inr message \<Rightarrow>
          (case sendInvokeResult opts frame (internalError message) s of
             Inl _ \<Rightarrow> s
           | Inr s' \<Rightarrow> s'))"

definition invokeSettled :: "client_opts \<Rightarrow> invoke_frame \<Rightarrow> outcome \<Rightarrow> client \<Rightarrow> client" where
  "invokeSettled opts frame out s =
     (case out of
        Resolves result \<Rightarrow>
          (case sendInvokeResult opts frame result s of
             Inr s' \<Rightarrow> s'
           | Inl e \<Rightarrow> sendInternalError opts frame (ThrownError e) s)
      | Rejects err \<Rightarrow> sendInternalError opts frame err s)"

text \<open>
  \<open>handleMessage\<close> on the parsed frame. It returns the client and the error it threw,
  if any: reading a property of \<open>null\<close> throws before anything is done, and building
  the \<open>Error\<close> of a failed response throws when the carried message cannot be converted
  to a string, after the request has been removed from the pending map.
\<close>

definition handleResponse :: "json \<Rightarrow> client \<Rightarrow> client \<times> js_error option" where
  "handleResponse parsed s =
     (case jget parsed (lit ''id'') of
        JStr ident \<Rightarrow>
          (case map_of (pending s) ident of
             None \<Rightarrow> (s, None)
           | Some k \<Rightarrow>
               if jget (jget parsed (lit ''payload'')) (lit ''status'') = JStr (lit ''accepted'')
               then (s, None)
               else
                 (let s1 = s\<lparr> pending := filter (\<lambda>(k', _). k' \<noteq> ident) (pending s) \<rparr>
                  in if truthy (jget parsed (lit ''ok'')) then (onResolved k s1, None)
                     else
                       (let m = jget (jget parsed (lit ''error'')) (lit ''message'')
                        in case (if m = JUndefined \<or> m = JNull then Inr (lit ''unknown error'')
                                 else toStringJS m) of
                             Inl e \<Rightarrow> (s1, Some e)
                           | Inr _ \<Rightarrow> (onRejected k s1, None))))
      | _ \<Rightarrow> (s, None))"

definition handleMessage :: "client_opts \<Rightarrow> json \<Rightarrow> int \<Rightarrow> client \<Rightarrow> client \<times> js_error option" where
  "handleMessage opts parsed now s =
     (if parsed = JNull
      then (s, Some (TypeError (lit ''Cannot read properties of null'')))
      else if jget parsed (lit ''type'') = JStr (lit ''event'') \<or> truthy (jget parsed (lit ''event''))
      then
        (let event = jget parsed (lit ''event'')
         in if event = JStr (lit ''connect.challenge'') then
              (case (if truthy (jget parsed (lit ''payload''))
                     then jget (jget parsed (lit ''payload'')) (lit ''nonce'') else JNull) of
                 JStr nonce \<Rightarrow>
                   if nonce \<noteq> [] then (sendConnect opts now (s\<lparr> connectNonce := Some nonce \<rparr>), None)
                   else (s, None)
               | _ \<Rightarrow> (s, None))
            else if event = JStr (lit ''node.invoke.request'') then
              (case coerceInvokePayload opts (jget parsed (lit ''payload'')) of
                 None \<Rightarrow> (s, None)
               | Some frame \<Rightarrow> (handleInvoke opts frame s, None))
            else (s, None))
      else if jget parsed (lit ''type'') = JStr (lit ''res'') \<or> truthy (jget parsed (lit ''id''))
      then handleResponse parsed s
      else (s, None))"

text \<open>The events the client reacts to, and its reaction to each.\<close>

datatype event =
    Start
  | Stop
  | ReconnectTimer
  | WsOpened
  | WsMessage jsstring int
  | WsClosed int
  | WsError jsstring
  | ConnectTimer int
  | InvokeSettled invoke_frame outcome

text \<open>
  The \<open>open\<close> event: the socket the client holds, if it was connecting, is open now;
  the handler queues the handshake.
\<close>

definition onOpen :: "client \<Rightarrow> client" where
  "onOpen s =
     queueConnect (if ws s = Some WsConnecting then s\<lparr> ws := Some WsOpen \<rparr> else s)"

definition onMessage :: "client_opts \<Rightarrow> jsstring \<Rightarrow> int \<Rightarrow> client \<Rightarrow> client" where
  "onMessage opts raw now s =
     (case env_jsonParse opts raw of
        None \<Rightarrow> s
      | Some parsed \<Rightarrow> fst (handleMessage opts parsed now s))"

definition onClose :: "client \<Rightarrow> client" where
  "onClose s = scheduleReconnect (setState Disconnected (flushPending (s\<lparr> ws := None \<rparr>)))"

text \<open>
  An invocation settles once: the continuation of \<open>handleInvoke\<close> runs for a call of
  \<open>onInvoke\<close> that is still outstanding, which then is outstanding no more.
\<close>

fun removeInflight :: "invoke_frame \<Rightarrow> (invoke_frame \<times> json) list \<Rightarrow> (invoke_frame \<times> json) list" where
  "removeInflight frame [] = []"
| "removeInflight frame ((f, p) # rest) =
     (if f = frame then rest else (f, p) # removeInflight frame rest)"

definition onInvokeSettled :: "client_opts \<Rightarrow> invoke_frame \<Rightarrow> outcome \<Rightarrow> client \<Rightarrow> client" where
  "onInvokeSettled opts frame out s =
     (if list_ex (\<lambda>(f, _). f = frame) (inflight s)
      then invokeSettled opts frame out (s\<lparr> inflight := removeInflight frame (inflight s) \<rparr>)
      else s)"

fun step :: "client_opts \<Rightarrow> client \<Rightarrow> event \<Rightarrow> client" where
  "step opts s Start = startClient opts s"
| "step opts s Stop = stop s"
| "step opts s ReconnectTimer = connect opts s"
| "step opts s WsOpened = onOpen s"
| "step opts s (WsMessage raw now) = onMessage opts raw now s"
| "step opts s (WsClosed code) = onClose s"
| "step opts s (WsError message) = s"
| "step opts s (ConnectTimer now) = sendConnect opts now s"
| "step opts s (InvokeSettled frame out) = onInvokeSettled opts frame out s"

definition run :: "client_opts \<Rightarrow> client \<Rightarrow> event list \<Rightarrow> client" where
  "run opts s evs = foldl (step opts) s evs"

section \<open>Configuration (config.ts)\<close>

text \<open>The settings the handlers below read, as \<open>getConfig\<close> returns them.\<close>

record config =
  cfg_readOnly :: bool
  cfg_confirmWrites :: bool
  cfg_terminalEnabled :: bool
  cfg_terminalAllowlist :: "jsstring list"

section \<open>File editing (commands/file.ts)\<close>

text \<open>
  The loop of \<open>fileEdit\<close> that collects the ranges to replace, as pairs of offsets
  (\<open>positionAt\<close> maps the offsets of a document one to one to positions). The loop has no
  bound of its own; \<open>fuel\<close> bounds the number of iterations, and \<open>None\<close> says that
  the fuel ran out.
\<close>

fun findRanges :: "nat \<Rightarrow> jsstring \<Rightarrow> jsstring \<Rightarrow> nat \<Rightarrow> (nat \<times> nat) list \<Rightarrow> (nat \<times> nat) list option" where
  "findRanges 0 fullText oldText searchStart ranges = None"
| "findRanges (Suc fuel) fullText oldText searchStart ranges =
     (case indexOf fullText oldText searchStart of
        None \<Rightarrow> Some ranges
      | Some idx \<Rightarrow>
          findRanges fuel fullText oldText (idx + length oldText)
            (ranges @ [(idx, idx + length oldText)]))"

text \<open>
  What \<open>applyEdit\<close> does with the replacements of a \<open>WorkspaceEdit\<close>: each range of
  the original text, in ascending order and not overlapping, is replaced by the new text.
  \<open>pos\<close> is the offset up to which the original text has been consumed.
\<close>

fun applyReplacements :: "jsstring \<Rightarrow> nat \<Rightarrow> (nat \<times> nat) list \<Rightarrow> jsstring \<Rightarrow> jsstring" where
  "applyReplacements fullText pos [] newText = drop pos fullText"
| "applyReplacements fullText pos ((a, b) # ranges) newText =
     take (a - pos) (drop pos fullText) @ newText @ applyReplacements fullText b ranges newText"

text \<open>
  The surroundings of a file handler: the settings, the button the user picks in the
  confirmation dialogue (\<open>None\<close> when it is dismissed), the workspace folders and the
  current directory, the documents by path (the text, or the error \<open>openTextDocument\<close>
  rejects with), and whether \<open>applyEdit\<close> reports success.
\<close>

record file_env =
  fe_config :: config
  fe_choice :: "jsstring option"
  fe_workspaceFolders :: "jsstring list option"
  fe_cwd :: jsstring
  fe_documents :: "jsstring \<Rightarrow> js_error + jsstring"
  fe_applyEditOk :: bool

record edit_result =
  er_ok :: bool
  er_replacements :: nat

text \<open>
  \<open>fileEdit\<close>: the result is \<open>None\<close> when the call does not return within the fuel,
  otherwise the error thrown or the value returned; with it come the documents
  afterwards.
\<close>

definition fileEdit ::
  "nat \<Rightarrow> file_env \<Rightarrow> jsstring \<Rightarrow> jsstring \<Rightarrow> jsstring
     \<Rightarrow> (js_error + edit_result) option \<times> (jsstring \<Rightarrow> js_error + jsstring)" where
  "fileEdit fuel env path oldText newText =
     (if cfg_readOnly (fe_config env)
      then (Some (Inl (Error (lit ''Read-only mode is enabled''))), fe_documents env)
      else if cfg_confirmWrites (fe_config env) \<and> fe_choice env \<noteq> Some (lit ''Allow'')
      then (Some (Inl (Error (lit ''Edit denied by user''))), fe_documents env)
      else
        (case resolveWorkspacePath (fe_workspaceFolders env) (fe_cwd env) path of
           Inl e \<Rightarrow> (Some (Inl e), fe_documents env)
         | Inr uri \<Rightarrow>
             (case fe_documents env uri of
                Inl e \<Rightarrow> (Some (Inl e), fe_documents env)
              | Inr fullText \<Rightarrow>
                  (case findRanges fuel fullText oldText 0 [] of
                     None \<Rightarrow> (None, fe_documents env)
                   | Some ranges \<Rightarrow>
                       if ranges = []
                       then (Some (Inl (Error (lit ''oldText not found in '' @ path))),
                             fe_documents env)
                       else
                         (Some (Inr \<lparr> er_ok = fe_applyEditOk env,
                                      er_replacements = length ranges \<rparr>),
                          if fe_applyEditOk env
                          then (fe_documents env)
                                 (uri := Inr (applyReplacements fullText 0 ranges newText))
                          else fe_documents env)))))"

section \<open>Terminal (commands/terminal.ts)\<close>
















section \<open>Notions used to state the properties\<close>

text \<open>
  The first white-space-delimited token of a command line, in the words of the
  specification: leading white space is skipped and the token runs up to the next
  white-space code unit.
\<close>

definition firstToken_spec :: "jsstring \<Rightarrow> jsstring" where
  "firstToken_spec s = takeWhile (\<lambda>c. \<not> isWhiteSpace c) (dropWhile isWhiteSpace s)"

text \<open>
  A token that names no directory: it holds no path separator of the platform and, on
  Windows, does not start with a drive prefix.
\<close>

definition plainName :: "platform \<Rightarrow> jsstring \<Rightarrow> bool" where
  "plainName pf t =
     (case pf of
        Posix \<Rightarrow> slash \<notin> set t
      | Win32 \<Rightarrow> \<not> list_ex isPathSeparator t \<and> \<not> hasDrivePrefix t)"

text \<open>
  A command line for Windows: the path of \<open>npm.exe\<close> in the directory \<open>tools\<close> of
  drive \<open>C\<close>, written with backslashes, and the argument \<open>run\<close>.
\<close>

definition windowsCommand :: jsstring where
  "windowsCommand =
     lit ''C:'' @ backslash # lit ''tools'' @ backslash # lit ''npm.exe run''"

text \<open>The directory and file names a path consists of.\<close>

definition pathSegments :: "jsstring \<Rightarrow> jsstring list" where
  "pathSegments p = filter (\<lambda>seg. seg \<noteq> []) (splitSlash p)"

text \<open>A segment that \<open>normalizeString\<close> keeps as it is.\<close>

definition cleanSeg :: "jsstring \<Rightarrow> bool" where
  "cleanSeg seg \<longleftrightarrow> seg \<noteq> [] \<and> slash \<notin> set seg \<and> seg \<noteq> lit ''.'' \<and> seg \<noteq> lit ''..''"

text \<open>
  The delay before the reconnect that follows the \<open>k\<close>-th consecutive failure, counted
  from 0, in the words of the specification: 1000 ms doubled \<open>k\<close> times, capped at 30000 ms.
\<close>

definition backoffDelay_spec :: "nat \<Rightarrow> nat" where
  "backoffDelay_spec k = min (1000 * 2 ^ k) 30000"

definition isClose :: "event \<Rightarrow> bool" where
  "isClose e = (case e of WsClosed _ \<Rightarrow> True | _ \<Rightarrow> False)"

text \<open>The handshake requests among the frames sent.\<close>

definition isConnectFrame :: "req_frame \<Rightarrow> bool" where
  "isConnectFrame f \<longleftrightarrow> rf_method f = lit ''connect''"

definition connectCount :: "client \<Rightarrow> nat" where
  "connectCount s = length (filter isConnectFrame (sent s))"

text \<open>No handshake is outstanding.\<close>

definition noPConnect :: "client \<Rightarrow> bool" where
  "noPConnect s = list_all (\<lambda>(_, k). k \<noteq> PConnect) (pending s)"






text \<open>
  Two relations between a state of the client and a later one. The first: nothing that
  concerns the reconnect backoff has changed. The second: nothing that concerns the
  handshake has changed, and an open socket with no handshake outstanding is still so.
\<close>

definition sameBackoff :: "client \<Rightarrow> client \<Rightarrow> bool" where
  "sameBackoff s s' \<longleftrightarrow>
     closed s' = closed s \<and> backoffMs s' = backoffMs s
     \<and> reconnectDelays s' = reconnectDelays s \<and> stateChanges s' = stateChanges s"

definition quietHS :: "client \<Rightarrow> client \<Rightarrow> bool" where
  "quietHS s s' \<longleftrightarrow>
     connectSent s' = connectSent s \<and> connectCount s' = connectCount s
     \<and> (noPConnect s \<and> ws s = Some WsOpen \<longrightarrow> noPConnect s' \<and> ws s' = Some WsOpen)"

text \<open>
  A configuration and three frames for the worked examples: \<open>exampleParse\<close> is
  \<open>JSON.parse\<close> on the texts of a connect-challenge event, of the gateway's answer to the
  first request, of an invocation request and of an invocation request without an id,
  and fails on any other text.
\<close>

definition challengeText :: jsstring where
  \<open>challengeText = lit ''{"event":"connect.challenge","payload":{"nonce":"abc"}}''\<close>

definition helloText :: jsstring where
  \<open>helloText = lit ''{"type":"res","id":"uuid-0","ok":true,"payload":{}}''\<close>

definition invokeText :: jsstring where
  \<open>invokeText = lit ''{"type":"event","event":"node.invoke.request","payload":{"id":"inv-1","nodeId":"n1","command":"vscode.git.status"}}''\<close>

definition malformedText :: jsstring where
  \<open>malformedText = lit ''{"type":"event","event":"node.invoke.request","payload":{"id":"  ","nodeId":"n1","command":"vscode.git.status"}}''\<close>

definition exampleParse :: "jsstring \<Rightarrow> json option" where
  "exampleParse raw =
     (if raw = challengeText then
        Some (JObj [(lit ''event'', JStr (lit ''connect.challenge'')),
                    (lit ''payload'', JObj [(lit ''nonce'', JStr (lit ''abc''))])])
      else if raw = helloText then
        Some (JObj [(lit ''type'', JStr (lit ''res'')), (lit ''id'', JStr (lit ''uuid-0'')),
                    (lit ''ok'', JBool True), (lit ''payload'', JObj [])])
      else if raw = invokeText then
        Some (JObj [(lit ''type'', JStr (lit ''event'')),
                    (lit ''event'', JStr (lit ''node.invoke.request'')),
                    (lit ''payload'', JObj [(lit ''id'', JStr (lit ''inv-1'')),
                                           (lit ''nodeId'', JStr (lit ''n1'')),
                                           (lit ''command'', JStr (lit ''vscode.git.status''))])])
      else if raw = malformedText then
        Some (JObj [(lit ''type'', JStr (lit ''event'')),
                    (lit ''event'', JStr (lit ''node.invoke.request'')),
                    (lit ''payload'', JObj [(lit ''id'', JStr (lit ''  '')),
                                           (lit ''nodeId'', JStr (lit ''n1'')),
                                           (lit ''command'', JStr (lit ''vscode.git.status''))])])
      else None)"

definition exampleOpts :: client_opts where
  "exampleOpts =
     \<lparr> opt_host = lit ''127.0.0.1'', opt_port = 18789, opt_tls = False, opt_token = None,
       opt_displayName = lit ''VS Code'', opt_commands = [lit ''vscode.git.status''],
       opt_caps = [lit ''vscode''], env_jsonParse = exampleParse,
       env_jsonStringify = (\<lambda>v. lit ''null''), env_deviceId = lit ''device-1'',
       env_publicKey = lit ''key'', env_sign = (\<lambda>payload. lit ''signature''),
       env_platform = lit ''linux'' \<rparr>"

definition exampleFrame :: invoke_frame where
  "exampleFrame =
     \<lparr> if_id = lit ''inv-1'', if_nodeId = lit ''n1'', if_command = lit ''vscode.git.status'',
       if_paramsJSON = None, if_timeoutMs = None \<rparr>"


text \<open>
  A workspace at \<open>/w\<close> holding one document, \<open>/w/a.txt\<close> with the text \<open>abc abc\<close>,
  with no restriction configured, for the worked examples of \<open>fileEdit\<close>.
\<close>

definition exampleFileEnv :: file_env where
  "exampleFileEnv =
     \<lparr> fe_config = \<lparr> cfg_readOnly = False, cfg_confirmWrites = False,
                      cfg_terminalEnabled = True, cfg_terminalAllowlist = [lit ''npm''] \<rparr>,
       fe_choice = None, fe_workspaceFolders = Some [lit ''/w''], fe_cwd = lit ''/'',
       fe_documents =
         (\<lambda>p. if p = lit ''/w/a.txt'' then Inr (lit ''abc abc'')
              else Inl (Error (lit ''cannot open file''))),
       fe_applyEditOk = True \<rparr>"











section \<open>Facts about strings and paths\<close>

lemma lit_Nil: "lit [] = []"
  by (simp add: lit_def)

lemma lit_Cons: "lit (c # cs) = of_char c # lit cs"
  by (simp add: lit_def)

lemma takeWhile_append_all:
  assumes "\<forall>x\<in>set b. \<not> P x"
  shows "takeWhile P (a @ b) = takeWhile P a"
proof (cases "\<forall>x\<in>set a. P x")
  case True
  have "takeWhile P b = []" using assms by (cases b) auto
  moreover have "takeWhile P a = a" using True by (intro takeWhile_eq_all_conv[THEN iffD2])
  ultimately show ?thesis using True by (simp only: takeWhile_append2 append_Nil2)
next
  case False
  then show ?thesis by (auto simp: takeWhile_append1)
qed

lemma takeWhile_strip_end:
  "takeWhile (\<lambda>c. \<not> Q c) (rev (dropWhile Q (rev u))) = takeWhile (\<lambda>c. \<not> Q c) u"
proof -
  let ?a = "rev (dropWhile Q (rev u))" and ?b = "rev (takeWhile Q (rev u))"
  have u: "u = ?a @ ?b"
    by (metis rev_append rev_rev_ident takeWhile_dropWhile_id)
  have "\<forall>x\<in>set ?b. \<not> \<not> Q x"
    by (auto dest: set_takeWhileD)
  then have "takeWhile (\<lambda>c. \<not> Q c) (?a @ ?b) = takeWhile (\<lambda>c. \<not> Q c) ?a"
    by (rule takeWhile_append_all)
  with u show ?thesis by simp
qed

lemma splitWsFirst_trim: "splitWsFirst (trim s) = firstToken_spec s"
  by (simp add: splitWsFirst_def trim_def firstToken_spec_def takeWhile_strip_end)

lemma posix_basename_no_slash: "slash \<notin> set t \<Longrightarrow> posix_basename t = t"
proof -
  assume a: "slash \<notin> set t"
  then have "dropWhile (\<lambda>c. c = slash) (rev t) = rev t"
    by (cases "rev t") auto
  moreover have "takeWhile (\<lambda>c. c \<noteq> slash) (rev t) = rev t"
    using a by (intro takeWhile_eq_all_conv[THEN iffD2]) auto
  ultimately show ?thesis by (simp only: posix_basename_def rev_rev_ident)
qed

lemma posix_basename_last_segment:
  "slash \<notin> set t \<Longrightarrow> t \<noteq> [] \<Longrightarrow> posix_basename (d @ slash # t) = t"
proof -
  assume a: "slash \<notin> set t" and ne: "t \<noteq> []"
  from ne obtain c cs where r: "rev t = c # cs" by (cases "rev t") auto
  with a have c: "c \<noteq> slash" by (metis list.set_intros(1) set_rev)
  have "dropWhile (\<lambda>c. c = slash) (rev (d @ slash # t)) = rev t @ slash # rev d"
    using r c by simp
  moreover have "takeWhile (\<lambda>c. c \<noteq> slash) (rev t @ slash # rev d) = rev t"
    using a by (subst takeWhile_append2) auto
  ultimately show ?thesis by (simp add: posix_basename_def)
qed

lemma win32_basename_plain:
  assumes "\<not> list_ex isPathSeparator t" and "\<not> hasDrivePrefix t"
  shows "win32_basename t = t"
proof -
  have a: "\<forall>c\<in>set (rev t). \<not> isPathSeparator c"
    using assms(1) by (simp add: list_ex_iff)
  then have "dropWhile isPathSeparator (rev t) = rev t"
    by (cases "rev t") auto
  moreover have "takeWhile (\<lambda>c. \<not> isPathSeparator c) (rev t) = rev t"
    using a by (intro takeWhile_eq_all_conv[THEN iffD2])
  ultimately show ?thesis
    using assms(2) by (simp only: win32_basename_def Let_def if_False rev_rev_ident)
qed


lemma splitSlash_not_Nil [simp]: "splitSlash p \<noteq> []"
  by (induction p) (auto split: list.splits)

lemma splitSlash_append: "splitSlash (a @ slash # b) = splitSlash a @ splitSlash b"
proof (induction a)
  case Nil
  show ?case by simp
next
  case (Cons c a)
  obtain s ss where "splitSlash a = s # ss" by (cases "splitSlash a") auto
  with Cons show ?case by (auto split: list.splits)
qed

lemma splitSlash_no_slash: "seg \<in> set (splitSlash p) \<Longrightarrow> slash \<notin> set seg"
proof (induction p arbitrary: seg)
  case Nil
  then show ?case by simp
next
  case (Cons c p)
  then show ?case by (cases "splitSlash p") (auto split: if_splits)
qed

lemma splitSlash_plain: "slash \<notin> set s \<Longrightarrow> splitSlash s = [s]"
  by (induction s) auto

lemma splitSlash_joinSlash:
  "segs \<noteq> [] \<Longrightarrow> \<forall>s\<in>set segs. slash \<notin> set s \<Longrightarrow> splitSlash (joinSlash segs) = segs"
proof (induction segs rule: joinSlash.induct)
  case 1
  then show ?case by simp
next
  case (2 seg)
  then show ?case by (simp add: splitSlash_plain)
next
  case (3 seg v va)
  then show ?case by (simp add: splitSlash_append splitSlash_plain)
qed

lemma joinSlash_append:
  "a \<noteq> [] \<Longrightarrow> b \<noteq> [] \<Longrightarrow> joinSlash (a @ b) = joinSlash a @ slash # joinSlash b"
proof (induction a rule: joinSlash.induct)
  case 1
  then show ?case by simp
next
  case (2 seg)
  then show ?case by (cases b) auto
next
  case (3 seg v va)
  then show ?case by simp
qed

lemma normStep_False_cases:
  "normStep False st seg = st \<or> normStep False st seg = tl st
     \<or> (normStep False st seg = seg # st \<and> seg \<noteq> [] \<and> seg \<noteq> lit ''.'' \<and> seg \<noteq> lit ''..'')"
  by (cases st) (simp_all add: normStep_def)

lemma normStep_clean:
  assumes "\<forall>s\<in>set st. cleanSeg s" "slash \<notin> set seg"
  shows "\<forall>s\<in>set (normStep False st seg). cleanSeg s"
proof -
  have "\<forall>s\<in>set (tl st). cleanSeg s"
    using assms(1) by (cases st) simp_all
  moreover have "seg \<noteq> [] \<and> seg \<noteq> lit ''.'' \<and> seg \<noteq> lit ''..'' \<Longrightarrow> cleanSeg seg"
    using assms(2) by (simp add: cleanSeg_def)
  ultimately show ?thesis
    using normStep_False_cases [of st seg] assms(1) by auto
qed

lemma normStep_push: "cleanSeg seg \<Longrightarrow> normStep b st seg = seg # st"
  by (simp add: normStep_def cleanSeg_def)

lemma foldl_normStep_clean:
  "\<forall>s\<in>set st. cleanSeg s \<Longrightarrow> \<forall>s\<in>set segs. slash \<notin> set s \<Longrightarrow>
     \<forall>s\<in>set (foldl (normStep False) st segs). cleanSeg s"
proof (induction segs arbitrary: st)
  case Nil
  then show ?case by simp
next
  case (Cons seg segs)
  have "\<forall>s\<in>set (normStep False st seg). cleanSeg s"
    using Cons.prems by (intro normStep_clean) auto
  then show ?case using Cons by simp
qed

lemma foldl_normStep_push:
  "\<forall>s\<in>set segs. cleanSeg s \<Longrightarrow> foldl (normStep b) st segs = rev segs @ st"
  by (induction segs arbitrary: st) (simp_all add: normStep_push)

lemma resolve_absolute:
  "isAbsolute root \<Longrightarrow>
     resolve cwd [root] = slash # joinSlash (rev (foldl (normStep False) [] (splitSlash root)))"
proof -
  assume a: "isAbsolute root"
  then have ne: "root \<noteq> []" by (auto simp: isAbsolute_def)
  have "splitSlash (root @ [slash]) = splitSlash root @ [[]]"
    using splitSlash_append [of root "[]"] by simp
  then show ?thesis
    using a ne by (simp add: resolve_def normalizeString_def normStep_def)
qed

lemma resolve_absolute_rel:
  "isAbsolute root \<Longrightarrow> \<not> isAbsolute rel \<Longrightarrow>
     resolve cwd [root, rel] =
       slash # joinSlash (rev (foldl (normStep False)
                 (foldl (normStep False) [] (splitSlash root)) (splitSlash rel)))"
proof -
  assume a: "isAbsolute root" and r: "\<not> isAbsolute rel"
  then have ne: "root \<noteq> []" by (auto simp: isAbsolute_def)
  show ?thesis
  proof (cases "rel = []")
    case True
    have "splitSlash (root @ [slash]) = splitSlash root @ [[]]"
      using splitSlash_append [of root "[]"] by simp
    then show ?thesis
      using a ne True by (simp add: resolve_def normalizeString_def normStep_def)
  next
    case False
    have "splitSlash (root @ slash # rel @ [slash]) = splitSlash root @ splitSlash rel @ [[]]"
      using splitSlash_append [of root "rel @ [slash]"] splitSlash_append [of rel "[]"] by simp
    then show ?thesis
      using a ne r False by (simp add: resolve_def normalizeString_def normStep_def)
  qed
qed

lemma resolve_clean_idem:
  assumes "\<forall>s\<in>set segs. cleanSeg s"
  shows "resolve cwd [slash # joinSlash segs] = slash # joinSlash segs"
proof -
  have abs: "isAbsolute (slash # joinSlash segs)" by (simp add: isAbsolute_def)
  have "foldl (normStep False) [] (splitSlash (slash # joinSlash segs)) = rev segs"
  proof (cases "segs = []")
    case True
    then show ?thesis by (simp add: normStep_def)
  next
    case False
    then have "splitSlash (joinSlash segs) = segs"
      using assms by (intro splitSlash_joinSlash) (auto simp: cleanSeg_def)
    then show ?thesis
      using assms by (simp add: normStep_def foldl_normStep_push)
  qed
  with resolve_absolute [OF abs] show ?thesis by simp
qed

lemma pathSegments_clean:
  assumes "\<forall>s\<in>set segs. cleanSeg s"
  shows "pathSegments (slash # joinSlash segs) = segs"
proof (cases "segs = []")
  case True
  then show ?thesis by (simp add: pathSegments_def)
next
  case False
  then have "splitSlash (joinSlash segs) = segs"
    using assms by (intro splitSlash_joinSlash) (auto simp: cleanSeg_def)
  moreover have "filter (\<lambda>seg. seg \<noteq> []) segs = segs"
    using assms by (auto simp: cleanSeg_def filter_id_conv)
  ultimately show ?thesis by (simp add: pathSegments_def)
qed

lemma joinSlash_clean_inj:
  assumes "\<forall>s\<in>set a. cleanSeg s" "\<forall>s\<in>set b. cleanSeg s" "joinSlash a = joinSlash b"
  shows "a = b"
proof -
  have "pathSegments (slash # joinSlash a) = pathSegments (slash # joinSlash b)"
    using assms(3) by simp
  then show ?thesis using assms(1,2) by (simp add: pathSegments_clean)
qed

lemma prefix_join_segments:
  assumes a: "\<forall>s\<in>set a. cleanSeg s" and b: "\<forall>s\<in>set b. cleanSeg s"
    and p: "prefix (joinSlash a @ [slash]) (joinSlash b)"
  shows "a \<noteq> [] \<and> strict_prefix a b"
proof -
  from p obtain t where t: "joinSlash b = joinSlash a @ slash # t"
    by (auto simp: prefix_def)
  have bne: "b \<noteq> []" using t by auto
  then have sb: "splitSlash (joinSlash b) = b"
    using b by (intro splitSlash_joinSlash) (auto simp: cleanSeg_def)
  have ane: "a \<noteq> []"
  proof
    assume "a = []"
    with t have "joinSlash b = slash # t" by simp
    then have "splitSlash (joinSlash b) = [] # splitSlash t" by simp
    with sb have "[] \<in> set b" by (metis list.set_intros(1))
    with b show False by (auto simp: cleanSeg_def)
  qed
  then have sa: "splitSlash (joinSlash a) = a"
    using a by (intro splitSlash_joinSlash) (auto simp: cleanSeg_def)
  have "b = a @ splitSlash t"
    using sb sa t by (simp add: splitSlash_append)
  then have "strict_prefix a b"
    by (auto simp: strict_prefix_def prefix_def)
  with ane show ?thesis by simp
qed


lemma root_stack_clean:
  "\<forall>s\<in>set (foldl (normStep False) [] (splitSlash root)). cleanSeg s"
  by (intro foldl_normStep_clean) (auto dest: splitSlash_no_slash)

lemma rel_stack_clean:
  "\<forall>s\<in>set (foldl (normStep False) (foldl (normStep False) [] (splitSlash root)) (splitSlash rel)).
     cleanSeg s"
  by (intro foldl_normStep_clean root_stack_clean) (auto dest: splitSlash_no_slash)

lemma resolve_root_segments:
  "isAbsolute root \<Longrightarrow>
     pathSegments (resolve cwd [root]) = rev (foldl (normStep False) [] (splitSlash root))"
  using root_stack_clean [of root] by (simp add: resolve_absolute pathSegments_clean)

lemma resolveWorkspacePath_absolute_root:
  assumes a: "isAbsolute root" and r: "\<not> isAbsolute rel"
  defines "stR \<equiv> foldl (normStep False) [] (splitSlash root)"
  defines "stV \<equiv> foldl (normStep False) stR (splitSlash rel)"
  shows "resolveWorkspacePath (Some (root # others)) cwd rel =
           (if stV \<noteq> stR \<and> \<not> prefix (joinSlash (rev stR) @ [slash]) (joinSlash (rev stV))
            then Inl (Error (lit ''Path escapes workspace: '' @ rel))
            else Inr (slash # joinSlash (rev stV)))"
proof -
  have cR: "\<forall>s\<in>set (rev stR). cleanSeg s"
    using root_stack_clean [of root] by (simp add: stR_def)
  have cV: "\<forall>s\<in>set (rev stV). cleanSeg s"
    using rel_stack_clean [of root rel] by (simp add: stV_def stR_def)
  have R: "resolve cwd [root] = slash # joinSlash (rev stR)"
    using a by (simp add: resolve_absolute stR_def)
  have V: "resolve cwd [root, rel] = slash # joinSlash (rev stV)"
    using a r by (simp add: resolve_absolute_rel stV_def stR_def)
  have VV: "resolve cwd [slash # joinSlash (rev stV)] = slash # joinSlash (rev stV)"
    using cV by (rule resolve_clean_idem)
  have eq: "joinSlash (rev stV) = joinSlash (rev stR) \<longleftrightarrow> stV = stR"
    using joinSlash_clean_inj [OF cV cR] by auto
  show ?thesis
    using r by (simp add: resolveWorkspacePath_def R V VV eq sep_def Let_def)
qed

lemma cleanSeg_x: "cleanSeg (lit ''x'')"
  by (simp add: cleanSeg_def lit_Cons lit_Nil slash_def)

lemma cleanSeg_a: "cleanSeg (lit ''a'')"
  by (simp add: cleanSeg_def lit_Cons lit_Nil slash_def)

lemma cleanSeg_b: "cleanSeg (lit ''b'')"
  by (simp add: cleanSeg_def lit_Cons lit_Nil slash_def)

lemma split_dotdot_x: "splitSlash (lit ''../x'') = [lit ''..'', lit ''x'']"
  by (simp add: lit_Cons lit_Nil slash_def)

lemma split_a_b: "splitSlash (lit ''a/b'') = [lit ''a'', lit ''b'']"
  by (simp add: lit_Cons lit_Nil slash_def)

lemma split_dot: "splitSlash (lit ''.'') = [lit ''.'']"
  by (simp add: lit_Cons lit_Nil slash_def)

lemma not_abs_lits:
  "\<not> isAbsolute (lit ''../x'')" "\<not> isAbsolute (lit ''a/b'')" "\<not> isAbsolute (lit ''.'')"
  by (simp_all add: isAbsolute_def lit_Cons lit_Nil slash_def)

lemma normStep_dotdot_clean:
  "\<forall>s\<in>set st. cleanSeg s \<Longrightarrow> normStep False st (lit ''..'') = tl st"
  by (cases st) (simp_all add: normStep_def cleanSeg_def lit_Cons lit_Nil)

lemma normStep_dot: "normStep b st (lit ''.'') = st"
  by (simp add: normStep_def)

lemma resolveWorkspacePath_dotdot_x:
  assumes a: "isAbsolute root"
    and l: "pathSegments (resolve cwd [root]) = [] \<or> last (pathSegments (resolve cwd [root])) \<noteq> lit ''x''"
  shows "resolveWorkspacePath (Some (root # others)) cwd (lit ''../x'') =
           Inl (Error (lit ''Path escapes workspace: '' @ lit ''../x''))"
proof -
  let ?stR = "foldl (normStep False) [] (splitSlash root)"
  let ?stV = "foldl (normStep False) ?stR (splitSlash (lit ''../x''))"
  have cR: "\<forall>s\<in>set ?stR. cleanSeg s" by (rule root_stack_clean)
  have cV: "\<forall>s\<in>set ?stV. cleanSeg s" by (rule rel_stack_clean)
  have V: "?stV = lit ''x'' # tl ?stR"
    using cR by (simp add: split_dotdot_x normStep_dotdot_clean normStep_push cleanSeg_x)
  have l': "?stR = [] \<or> hd ?stR \<noteq> lit ''x''"
    using l a by (auto simp: resolve_root_segments last_rev)
  have ne: "?stV \<noteq> ?stR"
    using l' V by (cases ?stR) auto
  have "\<not> prefix (joinSlash (rev ?stR) @ [slash]) (joinSlash (rev ?stV))"
  proof
    assume "prefix (joinSlash (rev ?stR) @ [slash]) (joinSlash (rev ?stV))"
    then have "rev ?stR \<noteq> [] \<and> strict_prefix (rev ?stR) (rev ?stV)"
      using cR cV by (intro prefix_join_segments) simp_all
    then have "?stR \<noteq> []" "length ?stR < length ?stV"
      by (auto dest: prefix_length_less)
    then show False using V by (cases ?stR) auto
  qed
  with ne show ?thesis
    using resolveWorkspacePath_absolute_root [OF a not_abs_lits(1), of others cwd] by simp
qed

lemma resolveWorkspacePath_a_b:
  assumes a: "isAbsolute root" and l: "pathSegments (resolve cwd [root]) \<noteq> []"
  shows "resolveWorkspacePath (Some (root # others)) cwd (lit ''a/b'') =
           Inr (resolve cwd [root] @ lit ''/a/b'')"
proof -
  let ?stR = "foldl (normStep False) [] (splitSlash root)"
  let ?stV = "foldl (normStep False) ?stR (splitSlash (lit ''a/b''))"
  have V: "?stV = lit ''b'' # lit ''a'' # ?stR"
    by (simp add: split_a_b normStep_push cleanSeg_a cleanSeg_b)
  have ne: "rev ?stR \<noteq> []"
    using l a by (simp add: resolve_root_segments)
  have j1: "rev ?stV = rev ?stR @ [lit ''a'', lit ''b'']"
    using V by simp
  have j2: "joinSlash [lit ''a'', lit ''b''] = lit ''a/b''"
    by (simp add: lit_Cons lit_Nil slash_def)
  have j: "joinSlash (rev ?stV) = joinSlash (rev ?stR) @ slash # lit ''a/b''"
    unfolding j1 using joinSlash_append [OF ne, of "[lit ''a'', lit ''b'']"] j2 by simp
  then have "prefix (joinSlash (rev ?stR) @ [slash]) (joinSlash (rev ?stV))"
    by (simp add: prefix_def)
  moreover have "slash # lit ''a/b'' = lit ''/a/b''"
    by (simp add: lit_Cons slash_def)
  ultimately show ?thesis
    using resolveWorkspacePath_absolute_root [OF a not_abs_lits(2), of others cwd] j
    by (simp add: resolve_absolute [OF a])
qed

lemma resolveWorkspacePath_dot:
  assumes a: "isAbsolute root"
  shows "resolveWorkspacePath (Some (root # others)) cwd (lit ''.'') = Inr (resolve cwd [root])"
  using resolveWorkspacePath_absolute_root [OF a not_abs_lits(3), of others cwd]
  by (simp add: split_dot normStep_dot resolve_absolute [OF a])

lemma resolveWorkspacePath_absolute:
  "isAbsolute p \<Longrightarrow>
     resolveWorkspacePath (Some (root # others)) cwd p =
       Inl (Error (lit ''Absolute paths not allowed: '' @ p))"
  by (simp add: resolveWorkspacePath_def)

lemma resolveWorkspacePath_inside:
  assumes a: "isAbsolute root"
    and ok: "resolveWorkspacePath (Some (root # others)) cwd p = Inr v"
  shows "(v = resolve cwd [root]
            \<or> strict_prefix (pathSegments (resolve cwd [root])) (pathSegments v))
         \<and> lit ''..'' \<notin> set (pathSegments v)"
proof -
  let ?stR = "foldl (normStep False) [] (splitSlash root)"
  let ?stV = "foldl (normStep False) ?stR (splitSlash p)"
  have r: "\<not> isAbsolute p"
    using ok by (auto simp: resolveWorkspacePath_def split: if_splits)
  have cR: "\<forall>s\<in>set (rev ?stR). cleanSeg s" using root_stack_clean [of root] by simp
  have cV: "\<forall>s\<in>set (rev ?stV). cleanSeg s" using rel_stack_clean [of root p] by simp
  note eq = resolveWorkspacePath_absolute_root [OF a r, of others cwd]
  from ok eq have v: "v = slash # joinSlash (rev ?stV)"
    and acc: "?stV = ?stR \<or> prefix (joinSlash (rev ?stR) @ [slash]) (joinSlash (rev ?stV))"
    by (auto split: if_splits)
  have sv: "pathSegments v = rev ?stV"
    using cV by (simp add: v pathSegments_clean)
  have sr: "pathSegments (resolve cwd [root]) = rev ?stR"
    using a by (simp add: resolve_root_segments)
  have "v = resolve cwd [root] \<or> strict_prefix (rev ?stR) (rev ?stV)"
  proof (cases "?stV = ?stR")
    case True
    then show ?thesis by (simp add: v resolve_absolute [OF a])
  next
    case False
    with acc have "prefix (joinSlash (rev ?stR) @ [slash]) (joinSlash (rev ?stV))" by simp
    then show ?thesis using prefix_join_segments [OF cR cV] by simp
  qed
  moreover have "lit ''..'' \<notin> set (rev ?stV)"
    using cV by (auto simp: cleanSeg_def)
  ultimately show ?thesis by (simp add: sv sr)
qed

lemmas path_eval =
  resolveWorkspacePath_def resolve_def normalizeString_def normStep_def isAbsolute_def
  pathSegments_def sep_def slash_def lit_Cons lit_Nil

lemmas command_eval =
  isCommandAllowed_def trim_def splitWsFirst_def firstToken_spec_def isWhiteSpace_def
  basename_def posix_basename_def win32_basename_def hasDrivePrefix_def isPathSeparator_def
  isWindowsDeviceRoot_def backslash_def colon_def slash_def Let_def lit_Cons lit_Nil

section \<open>Workspace sandbox\<close>

text \<open>
  Claim C5, as the code has it. With a workspace folder open whose root path is absolute:
  \<open>../x\<close> is refused whenever the last segment of the root is not \<open>x\<close> (when it is,
  \<open>../x\<close> names the root itself); every absolute path is refused, wherever it lies;
  \<open>a/b\<close> is accepted whenever the root has at least one segment, and resolves to
  \<open>root/a/b\<close>; \<open>.\<close> is accepted and resolves to the root; and whatever is accepted
  resolves to the root or to a path whose segments properly extend those of the root,
  with no \<open>..\<close> left in it.
\<close>

theorem resolveWorkspacePath_sandbox:
  assumes "isAbsolute rootPath"
  shows "((pathSegments (resolve cwd [rootPath]) = []
            \<or> last (pathSegments (resolve cwd [rootPath])) \<noteq> lit ''x'') \<longrightarrow>
          resolveWorkspacePath (Some (rootPath # others)) cwd (lit ''../x'') =
            Inl (Error (lit ''Path escapes workspace: '' @ lit ''../x'')))
       \<and> (isAbsolute p \<longrightarrow>
          resolveWorkspacePath (Some (rootPath # others)) cwd p =
            Inl (Error (lit ''Absolute paths not allowed: '' @ p)))
       \<and> (pathSegments (resolve cwd [rootPath]) \<noteq> [] \<longrightarrow>
          resolveWorkspacePath (Some (rootPath # others)) cwd (lit ''a/b'') =
            Inr (resolve cwd [rootPath] @ lit ''/a/b''))
       \<and> resolveWorkspacePath (Some (rootPath # others)) cwd (lit ''.'') =
            Inr (resolve cwd [rootPath])
       \<and> (resolveWorkspacePath (Some (rootPath # others)) cwd q = Inr v \<longrightarrow>
          (v = resolve cwd [rootPath]
             \<or> strict_prefix (pathSegments (resolve cwd [rootPath])) (pathSegments v))
          \<and> lit ''..'' \<notin> set (pathSegments v))"
  using assms resolveWorkspacePath_dotdot_x [of rootPath cwd others]
    resolveWorkspacePath_absolute [of p rootPath others cwd]
    resolveWorkspacePath_a_b [of rootPath cwd others]
    resolveWorkspacePath_dot [of rootPath others cwd]
    resolveWorkspacePath_inside [of rootPath others cwd q v]
  by blast

theorem resolveWorkspacePath_sandbox_witness:
  "isAbsolute (lit ''/w'')
   \<and> last (pathSegments (resolve (lit ''/home'') [lit ''/w''])) \<noteq> lit ''x''
   \<and> isAbsolute (lit ''/w/a'')
   \<and> pathSegments (resolve (lit ''/home'') [lit ''/w'']) \<noteq> []
   \<and> resolveWorkspacePath (Some [lit ''/w'']) (lit ''/home'') (lit ''../x'') =
        Inl (Error (lit ''Path escapes workspace: ../x''))
   \<and> resolveWorkspacePath (Some [lit ''/w'']) (lit ''/home'') (lit ''/w/a'') =
        Inl (Error (lit ''Absolute paths not allowed: /w/a''))
   \<and> resolveWorkspacePath (Some [lit ''/w'']) (lit ''/home'') (lit ''a/b'') = Inr (lit ''/w/a/b'')
   \<and> resolveWorkspacePath (Some [lit ''/w'']) (lit ''/home'') (lit ''.'') = Inr (lit ''/w'')
   \<and> strict_prefix (pathSegments (lit ''/w'')) (pathSegments (lit ''/w/a/b''))
   \<and> lit ''..'' \<notin> set (pathSegments (lit ''/w/a/b''))"
proof -
  have h: "isAbsolute (lit ''/w'')"
    by (simp add: path_eval)
  have r: "resolve (lit ''/home'') [lit ''/w''] = lit ''/w''"
    by (simp add: path_eval)
  have ok: "resolveWorkspacePath (Some [lit ''/w'']) (lit ''/home'') (lit ''a/b'') = Inr (lit ''/w/a/b'')"
    by (simp add: path_eval)
  have ne: "lit ''/w/a/b'' \<noteq> lit ''/w''"
    by (simp add: lit_Cons lit_Nil)
  have segs: "pathSegments (lit ''/w'') = [lit ''w'']"
    by (simp add: path_eval)
  have p: "isAbsolute (lit ''/w/a'')"
    by (simp add: path_eval)
  have x: "lit ''w'' \<noteq> lit ''x''"
    by (simp add: lit_Cons lit_Nil)
  have e1: "lit ''Path escapes workspace: '' @ lit ''../x'' = lit ''Path escapes workspace: ../x''"
    by (simp add: lit_def)
  have e2: "lit ''Absolute paths not allowed: '' @ lit ''/w/a'' = lit ''Absolute paths not allowed: /w/a''"
    by (simp add: lit_def)
  have e3: "lit ''/w'' @ lit ''/a/b'' = lit ''/w/a/b''"
    by (simp add: lit_def)
  show ?thesis
    using resolveWorkspacePath_sandbox
      [OF h, of "lit ''/home''" "[]" "lit ''/w/a''" "lit ''a/b''" "lit ''/w/a/b''"]
      h r ok ne segs p x
    by (simp add: e1 e2 e3)
qed

text \<open>
  Claim C5 as stated fails: in a workspace whose root is \<open>/x\<close> the input \<open>../x\<close> is
  accepted, because it resolves to the root itself.
\<close>

theorem resolveWorkspacePath_dotdot_counterexample:
  "resolveWorkspacePath (Some [lit ''/x'']) (lit ''/home'') (lit ''../x'') = Inr (lit ''/x'')"
  by (simp add: path_eval)

text \<open>
  In a workspace opened at the file-system root the comparison prefix is \<open>//\<close>, which
  no resolved path starts with, so \<open>a/b\<close> is refused there.
\<close>

lemma resolveWorkspacePath_at_filesystem_root:
  "resolveWorkspacePath (Some [lit ''/'']) (lit ''/home'') (lit ''a/b'') =
     Inl (Error (lit ''Path escapes workspace: a/b''))"
  by (simp add: path_eval)

section \<open>Terminal allowlist\<close>

text \<open>
  Claim C6, as the code has it. \<open>isCommandAllowed\<close> takes the first white-space-delimited
  token of the command line and compares the base name of that token, what
  \<open>path.basename\<close> returns on the platform, not the token: it returns true exactly when
  the token is not empty and the allowlist holds \<open>*\<close>, the base name, or an entry that
  followed by \<open>.exe\<close> is the base name. On Linux and macOS the base name is what follows
  the last slash of the token, trailing slashes ignored; on Windows the backslash
  separates as well and a leading drive prefix is left out. A token that names no
  directory is its own base name. The three examples of the specification hold on either
  platform.
\<close>

theorem isCommandAllowed_basename:
  "(isCommandAllowed pf command allowlist \<longleftrightarrow>
      firstToken_spec command \<noteq> [] \<and>
      (\<exists>allowed\<in>set allowlist. allowed = lit ''*''
         \<or> basename pf (firstToken_spec command) = allowed
         \<or> basename pf (firstToken_spec command) = allowed @ lit ''.exe''))
   \<and> basename Posix (firstToken_spec command) = posix_basename (firstToken_spec command)
   \<and> basename Win32 (firstToken_spec command) = win32_basename (firstToken_spec command)
   \<and> (plainName pf (firstToken_spec command) \<longrightarrow>
        basename pf (firstToken_spec command) = firstToken_spec command)
   \<and> isCommandAllowed pf (lit ''npm test'') [lit ''npm''] = True
   \<and> isCommandAllowed pf (lit ''rm -rf /'') [lit ''npm''] = False
   \<and> isCommandAllowed pf (lit ''anything'') [lit ''*''] = True"
proof -
  have 1: "isCommandAllowed pf command allowlist \<longleftrightarrow>
      firstToken_spec command \<noteq> [] \<and>
      (\<exists>allowed\<in>set allowlist. allowed = lit ''*''
         \<or> basename pf (firstToken_spec command) = allowed
         \<or> basename pf (firstToken_spec command) = allowed @ lit ''.exe'')"
    by (auto simp add: isCommandAllowed_def splitWsFirst_trim Let_def list_ex_iff)
  have 2: "basename Posix (firstToken_spec command) = posix_basename (firstToken_spec command)"
    and 3: "basename Win32 (firstToken_spec command) = win32_basename (firstToken_spec command)"
    by (simp_all add: basename_def)
  have 4: "basename pf (firstToken_spec command) = firstToken_spec command"
    if "plainName pf (firstToken_spec command)"
  proof (cases pf)
    case Posix
    with that show ?thesis
      by (simp add: plainName_def basename_def posix_basename_no_slash)
  next
    case Win32
    with that show ?thesis
      by (simp add: plainName_def basename_def win32_basename_plain)
  qed
  have 5: "isCommandAllowed pf (lit ''npm test'') [lit ''npm'']"
    by (cases pf) (simp_all add: command_eval)
  have 6: "\<not> isCommandAllowed pf (lit ''rm -rf /'') [lit ''npm'']"
    by (cases pf) (simp_all add: command_eval)
  have 7: "isCommandAllowed pf (lit ''anything'') [lit ''*'']"
    by (cases pf) (simp_all add: command_eval)
  show ?thesis
    using 1 2 3 4 5 6 7 by blast
qed

theorem isCommandAllowed_basename_witness:
  "firstToken_spec (lit ''  git status'') = lit ''git''
   \<and> plainName Posix (firstToken_spec (lit ''  git status''))
   \<and> basename Posix (firstToken_spec (lit ''  git status'')) = lit ''git''
   \<and> isCommandAllowed Posix (lit ''  git status'') [lit ''npm'', lit ''git'']"
proof -
  have t: "firstToken_spec (lit ''  git status'') = lit ''git''"
    by (simp add: command_eval)
  have s: "plainName Posix (lit ''git'')"
    by (simp add: plainName_def slash_def lit_Cons lit_Nil)
  show ?thesis
    using isCommandAllowed_basename [of Posix "lit ''  git status''" "[lit ''npm'', lit ''git'']"] t s
    by (auto simp add: lit_def)
qed

text \<open>
  Claim C6 as stated fails in both directions: \<open>/usr/bin/npm test\<close> is allowed by the
  allowlist \<open>["npm"]\<close> although its first token is neither \<open>npm\<close> nor \<open>npm.exe\<close> and
  there is no wildcard, and the empty command line is refused although the allowlist
  holds the wildcard.
\<close>

theorem isCommandAllowed_token_counterexample:
  "isCommandAllowed Posix (lit ''/usr/bin/npm test'') [lit ''npm''] = True
   \<and> firstToken_spec (lit ''/usr/bin/npm test'') = lit ''/usr/bin/npm''
   \<and> lit ''/usr/bin/npm'' \<noteq> lit ''npm''
   \<and> lit ''/usr/bin/npm'' \<noteq> lit ''npm'' @ lit ''.exe''
   \<and> lit ''npm'' \<noteq> lit ''*''
   \<and> isCommandAllowed Posix (lit '''') [lit ''*''] = False"
  by (simp add: command_eval)

text \<open>
  The same on Windows, where the command line also fails the claim as stated: the first
  token is the path of \<open>npm.exe\<close> in the directory \<open>tools\<close> of drive \<open>C\<close>, written
  with backslashes; its base name there is \<open>npm.exe\<close>, which the entry \<open>npm\<close> allows.
  On Linux and macOS the backslash does not separate, the token is its own base name,
  and the command is refused.
\<close>

lemma isCommandAllowed_windows_path:
  "basename Win32 (firstToken_spec windowsCommand) = lit ''npm.exe''
   \<and> isCommandAllowed Win32 windowsCommand [lit ''npm''] = True
   \<and> basename Posix (firstToken_spec windowsCommand) = firstToken_spec windowsCommand
   \<and> isCommandAllowed Posix windowsCommand [lit ''npm''] = False
   \<and> isCommandAllowed Win32 (lit ''/usr/bin/npm test'') [lit ''npm''] = True"
  by (simp add: command_eval windowsCommand_def)

lemma storeInv_new: "storeInv newActivityStore"
  by (simp add: storeInv_def newActivityStore_def)

lemma map_act_id_finishFirst [simp]:
  "map act_id (finishFirst i ok r e now as) = map act_id as"
  by (induction as) auto

lemma length_finishFirst [simp]: "length (finishFirst i ok r e now as) = length as"
  by (induction as) auto

lemma list_all_id_finishFirst:
  "list_all (\<lambda>a. act_id a < n) (finishFirst i ok r e now as) = list_all (\<lambda>a. act_id a < n) as"
  by (induction as) auto

lemma sorted_wrt_take: "sorted_wrt P xs \<Longrightarrow> sorted_wrt P (take n xs)"
  by (metis append_take_drop_id sorted_wrt_append)

lemma start_throws:
  "describeIntent c p = Inl e \<Longrightarrow> start st c p now = (Inl e, st\<lparr> nextId := nextId st + 1 \<rparr>)"
  by (simp add: start_def)

lemma start_ok:
  "describeIntent c p = Inr intent \<Longrightarrow> maxEntries st = 200 \<Longrightarrow>
     start st c p now =
       (Inr (nextId st),
        st\<lparr> nextId := nextId st + 1,
            activities := take 200 (newActivity (nextId st) c intent p now # activities st),
            changes := changes st + 1 \<rparr>)"
  by (simp add: start_def Let_def)

lemma storeInv_start: 
  assumes "storeInv st"
  shows "storeInv (snd (start st c p now))"
proof (cases "describeIntent c p")
  case (Inl e)
  then show ?thesis
    using assms by (auto simp: start_throws storeInv_def list_all_iff less_Suc_eq)
next
  case (Inr intent)
  define a where "a = newActivity (nextId st) c intent p now"
  define as where "as = take 200 (a # activities st)"
  have m: "maxEntries st = 200" using assms by (simp add: storeInv_def)
  have st': "snd (start st c p now) = st\<lparr> nextId := nextId st + 1, activities := as,
                                              changes := changes st + 1 \<rparr>"
    by (simp add: start_ok [OF Inr m] a_def as_def)
  have s: "sorted_wrt (\<lambda>a b. a > b) (map act_id (a # activities st))"
    using assms by (auto simp: storeInv_def list_all_iff a_def newActivity_def)
  have 1: "sorted_wrt (\<lambda>a b. a > b) (map act_id as)"
    unfolding as_def take_map [symmetric] using s by (rule sorted_wrt_take)
  have 2: "length as \<le> 200"
    by (simp add: as_def)
  have "\<forall>x\<in>set (a # activities st). act_id x < nextId st + 1"
    using assms by (auto simp: storeInv_def list_all_iff a_def newActivity_def less_Suc_eq)
  then have 3: "list_all (\<lambda>x. act_id x < nextId st + 1) as"
    unfolding as_def list_all_iff by (meson in_set_takeD)
  show ?thesis
    using assms 1 2 3 by (simp add: st' storeInv_def)
qed

lemma storeInv_finish: "storeInv st \<Longrightarrow> storeInv (finish st i ok r e now)"
  by (simp add: finish_def storeInv_def list_all_id_finishFirst)

lemma storeInv_clear: "storeInv st \<Longrightarrow> storeInv (clear st)"
  by (simp add: clear_def storeInv_def)

lemma storeInv_applyOp: "storeInv st \<Longrightarrow> storeInv (applyOp st op)"
  by (cases op) (simp_all add: storeInv_start storeInv_finish storeInv_clear)

lemma storeInv_runStore: "storeInv st \<Longrightarrow> storeInv (runStore ops st)"
  unfolding runStore_def by (induction ops arbitrary: st) (simp_all add: storeInv_applyOp)

lemma nextId_start: "nextId (snd (start st c p now)) = nextId st + 1"
  by (simp add: start_def Let_def split: sum.splits)

lemma nextId_finish: "nextId (finish st i ok r e now) = nextId st"
  by (simp add: finish_def)

lemma nextId_applyOp: "nextId st \<le> nextId (applyOp st op)"
  by (cases op) (simp_all add: nextId_start nextId_finish clear_def)

lemma nextId_runStore: "nextId st \<le> nextId (runStore ops st)"
  unfolding runStore_def
proof (induction ops arbitrary: st)
  case Nil
  show ?case by simp
next
  case (Cons op ops)
  have "nextId st \<le> nextId (applyOp st op)" by (rule nextId_applyOp)
  also have "\<dots> \<le> nextId (foldl applyOp (applyOp st op) ops)" by (rule Cons.IH)
  finally show ?case by simp
qed

lemma start_returns:
  assumes "start st c p now = (Inr i, st')" and "maxEntries st = 200"
  shows "i = nextId st \<and> nextId st' = nextId st + 1 \<and> changes st' = changes st + 1
         \<and> activities st' = take 200 (hd (activities st') # activities st)
         \<and> act_id (hd (activities st')) = i \<and> act_command (hd (activities st')) = c
         \<and> act_params (hd (activities st')) = p \<and> act_status (hd (activities st')) = Running
         \<and> act_startedAt (hd (activities st')) = now"
proof (cases "describeIntent c p")
  case (Inl e)
  with assms show ?thesis by (simp add: start_throws)
next
  case (Inr intent)
  show ?thesis
    using assms(1) unfolding start_ok [OF Inr assms(2)]
    by (auto simp: newActivity_def)
qed

lemma finish_absent:
  "\<not> list_ex (\<lambda>a. act_id a = i) (activities st) \<Longrightarrow> finish st i ok r e now = st"
  by (simp add: finish_def)

lemmas store_eval =
  runStore_def start_def finish_def clear_def getAll_def newActivityStore_def newActivity_def
  describeIntent_def withPath_def withPathLine_def withTrunc_def bindE_def jOr_def truthy_def
  jget_def shortPath_def Let_def lit_Cons lit_Nil

lemma describeIntent_unprintable_line:
  "describeIntent (lit ''vscode.lang.definition'')
     (JObj [(lit ''line'', JObj [(lit ''toString'', JNum 1)])])
   = Inl (TypeError (lit ''Cannot convert object to primitive value''))"
  by (simp add: describeIntent_def withPathLine_def bindE_def jOr_def truthy_def jget_def
      Let_def lit_Cons lit_Nil)

section \<open>Activity store\<close>

text \<open>
  What does hold of the store. After every sequence of operations on the initial store,
  it holds at most 200 records, ordered newest first (ids strictly decreasing from the
  front). A \<open>start\<close> that returns hands out the id \<open>nextId\<close>, larger than the id of
  every record held, puts the new record, marked running, at the front and cuts the list
  to 200 records; the id returned by any later \<open>start\<close> is larger still. \<open>finish\<close>
  with an id that no record carries leaves the store as it is.
\<close>

lemma activityStore_bounded:
  fixes ops :: "store_op list"
  defines "st \<equiv> runStore ops newActivityStore"
  shows "length (getAll st) \<le> 200
     \<and> sorted_wrt (\<lambda>a b. a > b) (map act_id (getAll st))
     \<and> (start st c p now = (Inr i, st') \<longrightarrow>
          i = nextId st \<and> list_all (\<lambda>a. act_id a < i) (getAll st)
          \<and> getAll st' = take 200 (hd (getAll st') # getAll st)
          \<and> act_id (hd (getAll st')) = i \<and> act_command (hd (getAll st')) = c
          \<and> act_status (hd (getAll st')) = Running
          \<and> length (getAll st') \<le> 200
          \<and> (start (runStore ops' st') c' p' now' = (Inr j, st'') \<longrightarrow> i < j))
     \<and> (\<not> list_ex (\<lambda>a. act_id a = k) (getAll st) \<longrightarrow> finish st k ok r e fin = st)"
proof -
  have inv: "storeInv st"
    unfolding st_def by (rule storeInv_runStore [OF storeInv_new])
  have m: "maxEntries st = 200"
    using inv by (simp add: storeInv_def)
  have 1: "length (getAll st) \<le> 200"
    using inv by (simp add: storeInv_def getAll_def)
  have 2: "sorted_wrt (\<lambda>a b. a > b) (map act_id (getAll st))"
    using inv by (simp add: storeInv_def getAll_def)
  have 3: "i = nextId st \<and> list_all (\<lambda>a. act_id a < i) (getAll st)
          \<and> getAll st' = take 200 (hd (getAll st') # getAll st)
          \<and> act_id (hd (getAll st')) = i \<and> act_command (hd (getAll st')) = c
          \<and> act_status (hd (getAll st')) = Running
          \<and> length (getAll st') \<le> 200
          \<and> (start (runStore ops' st') c' p' now' = (Inr j, st'') \<longrightarrow> i < j)"
    if s: "start st c p now = (Inr i, st')"
  proof -
    note r = start_returns [OF s m]
    have inv': "storeInv st'"
      using storeInv_start [OF inv, of c p now] s by simp
    have later: "i < j" if s2: "start (runStore ops' st') c' p' now' = (Inr j, st'')"
    proof -
      have "maxEntries (runStore ops' st') = 200"
        using storeInv_runStore [OF inv', of ops'] by (simp add: storeInv_def)
      from start_returns [OF s2 this] have "j = nextId (runStore ops' st')" by simp
      moreover have "nextId st' \<le> nextId (runStore ops' st')" by (rule nextId_runStore)
      ultimately show ?thesis using r by simp
    qed
    have "list_all (\<lambda>a. act_id a < i) (getAll st)"
      using inv r by (simp add: storeInv_def getAll_def)
    moreover have "length (getAll st') \<le> 200"
      using inv' by (simp add: storeInv_def getAll_def)
    ultimately show ?thesis
      using r later by (simp add: getAll_def)
  qed
  have 4: "finish st k ok r e fin = st" if "\<not> list_ex (\<lambda>a. act_id a = k) (getAll st)"
    using that by (simp add: finish_absent getAll_def)
  show ?thesis
    using 1 2 3 4 by blast
qed

lemma activityStore_bounded_example:
  "start (runStore [OpStart (lit ''vscode.file.read'') (JObj [(lit ''path'', JStr (lit ''a.ts''))]) 10]
            newActivityStore) (lit ''vscode.git.status'') JNull 20
     = (Inr 2, snd (start (runStore [OpStart (lit ''vscode.file.read'')
                                        (JObj [(lit ''path'', JStr (lit ''a.ts''))]) 10]
                              newActivityStore) (lit ''vscode.git.status'') JNull 20))
   \<and> map act_id (getAll (snd (start (runStore [OpStart (lit ''vscode.file.read'')
                                        (JObj [(lit ''path'', JStr (lit ''a.ts''))]) 10]
                              newActivityStore) (lit ''vscode.git.status'') JNull 20))) = [2, 1]
   \<and> finish (runStore [OpStart (lit ''vscode.file.read'') (JObj [(lit ''path'', JStr (lit ''a.ts''))]) 10]
            newActivityStore) 7 True JNull None 30
     = runStore [OpStart (lit ''vscode.file.read'') (JObj [(lit ''path'', JStr (lit ''a.ts''))]) 10]
            newActivityStore"
proof -
  let ?ops = "[OpStart (lit ''vscode.file.read'') (JObj [(lit ''path'', JStr (lit ''a.ts''))]) 10]"
  let ?st = "runStore ?ops newActivityStore"
  let ?st' = "snd (start ?st (lit ''vscode.git.status'') JNull 20)"
  have f: "fst (start ?st (lit ''vscode.git.status'') JNull 20) = Inr 2"
    by (simp add: store_eval)
  then have s: "start ?st (lit ''vscode.git.status'') JNull 20 = (Inr 2, ?st')"
    by (metis prod.collapse)
  have ids: "map act_id (getAll ?st) = [1]"
    by (simp add: store_eval)
  have ids': "map act_id (getAll ?st') = [2, 1]"
    by (simp add: store_eval)
  have absent: "\<not> list_ex (\<lambda>a. act_id a = 7) (getAll ?st)"
    by (simp add: store_eval)
  show ?thesis
    using activityStore_bounded
      [of ?ops "lit ''vscode.git.status''" JNull 20 2 ?st' "[]" "lit ''vscode.git.status''"
          JNull 30 3 "snd (start ?st' (lit ''vscode.git.status'') JNull 30)" 7 True JNull None 30]
      s ids' absent
    by simp
qed

text \<open>
  Claim C10 does not hold of the code: not every \<open>start\<close> inserts a record. \<open>start\<close>
  takes the next id first and builds the record after that, and building it converts
  parameters to strings. For the command \<open>vscode.lang.definition\<close> and the parameters
  \<open>{"line": {"toString": 1}}\<close> the conversion throws a TypeError: \<open>start\<close> does not
  return, the id is used up, and no record is inserted, whatever the store held.
\<close>

theorem start_throws_without_record:
  "start st (lit ''vscode.lang.definition'')
       (JObj [(lit ''line'', JObj [(lit ''toString'', JNum 1)])]) now
     = (Inl (TypeError (lit ''Cannot convert object to primitive value'')),
        st\<lparr> nextId := nextId st + 1 \<rparr>)
   \<and> getAll (snd (start st (lit ''vscode.lang.definition'')
                      (JObj [(lit ''line'', JObj [(lit ''toString'', JNum 1)])]) now))
       = getAll st
   \<and> nextId (snd (start st (lit ''vscode.lang.definition'')
                      (JObj [(lit ''line'', JObj [(lit ''toString'', JNum 1)])]) now))
       = nextId st + 1"
  by (simp add: start_throws [OF describeIntent_unprintable_line] getAll_def)

section \<open>Dispatcher\<close>

lemma definition_registered: "lit ''vscode.lang.definition'' \<in> set registeredCommands"
  by (simp add: registeredCommands_def)

text \<open>
  Where the dispatcher does return an envelope: for a name that is not registered, and,
  once the activity record has been built, for a handler that resolves or that throws an
  \<open>Error\<close>.
\<close>

lemma dispatchCommand_unknown:
  "command \<notin> set registeredCommands \<Longrightarrow>
     dispatchCommand handler st command params now fin =
       (Inr (EnvFail (lit ''UNKNOWN_COMMAND'') (lit ''Unknown command: '' @ command)), st)"
  by (simp add: dispatchCommand_def)

lemma dispatchCommand_recorded:
  assumes "command \<in> set registeredCommands" and "describeIntent command params = Inr intent"
  shows "(handler command params = Resolves payload \<longrightarrow>
            fst (dispatchCommand handler st command params now fin) = Inr (EnvOk payload))
       \<and> (handler command params = Rejects (ThrownError e) \<longrightarrow>
            fst (dispatchCommand handler st command params now fin) =
              Inr (EnvFail (lit ''COMMAND_ERROR'') (messageOf e)))"
  using assms
  by (simp add: dispatchCommand_def start_def Let_def thrownMessage_def)

text \<open>
  Claim C7 does not hold of the code. The activity record is built by
  \<open>activityStore.start\<close> before the guarded call of the handler, and building it
  converts parameters to strings: for the registered command \<open>vscode.lang.definition\<close>
  and the parameters \<open>{"line": {"toString": 1}}\<close> the conversion throws a TypeError,
  and \<open>dispatchCommand\<close> rejects with it instead of returning an envelope, whatever the
  handler would have done.
\<close>

theorem dispatchCommand_rejects:
  "fst (dispatchCommand handler st (lit ''vscode.lang.definition'')
          (JObj [(lit ''line'', JObj [(lit ''toString'', JNum 1)])]) now fin)
     = Inl (TypeError (lit ''Cannot convert object to primitive value''))"
  by (simp add: dispatchCommand_def definition_registered start_def
      describeIntent_unprintable_line)

lemma sameBackoff_refl [simp]: "sameBackoff s s"
  by (simp add: sameBackoff_def)

lemma sameBackoff_trans: "sameBackoff s s1 \<Longrightarrow> sameBackoff s1 s2 \<Longrightarrow> sameBackoff s s2"
  by (simp add: sameBackoff_def)

lemma sameBackoff_onRejected: "sameBackoff s (onRejected k s)"
  by (simp add: sameBackoff_def onRejected_def closeWs_def split: pending_kind.splits option.splits)

lemma sameBackoff_request: "sameBackoff s (request m p k s)"
  using sameBackoff_onRejected [of s k]
  by (simp add: request_def Let_def) (simp add: sameBackoff_def)

lemma sameBackoff_foldl_onRejected:
  "sameBackoff s (foldl (\<lambda>s' (_, k). onRejected k s') s ps)"
proof (induction ps arbitrary: s)
  case Nil
  show ?case by simp
next
  case (Cons p ps)
  obtain i k where p: "p = (i, k)" by (cases p)
  have "sameBackoff s (onRejected k s)" by (rule sameBackoff_onRejected)
  moreover have "sameBackoff (onRejected k s) (foldl (\<lambda>s' (_, k). onRejected k s') (onRejected k s) ps)"
    by (rule Cons.IH)
  ultimately show ?case by (simp add: p sameBackoff_trans)
qed

lemma sameBackoff_flushPending: "sameBackoff s (flushPending s)"
proof -
  have "sameBackoff s (s\<lparr> pending := [] \<rparr>)" by (simp add: sameBackoff_def)
  then show ?thesis
    unfolding flushPending_def
    using sameBackoff_foldl_onRejected sameBackoff_trans by blast
qed

lemma sameBackoff_sendConnect: "sameBackoff s (sendConnect opts now s)"
proof (cases "connectSent s")
  case True
  then show ?thesis by (simp add: sendConnect_def)
next
  case False
  have "sameBackoff s (s\<lparr> connectSent := True, connectTimer := False \<rparr>)"
    by (simp add: sameBackoff_def)
  then show ?thesis
    using False sameBackoff_request sameBackoff_trans
    by (simp add: sendConnect_def Let_def)
qed

lemma sameBackoff_sendInvokeResult:
  "sendInvokeResult opts frame result s = Inr s' \<Longrightarrow> sameBackoff s s'"
  by (auto simp: sendInvokeResult_def Let_def sameBackoff_request split: if_splits)

lemma sameBackoff_sendInternalError: "sameBackoff s (sendInternalError opts frame err s)"
  by (auto simp: sendInternalError_def sameBackoff_sendInvokeResult split: sum.splits)

lemma sameBackoff_invokeSettled: "sameBackoff s (invokeSettled opts frame out s)"
  by (auto simp: invokeSettled_def sameBackoff_sendInvokeResult sameBackoff_sendInternalError
      split: outcome.splits sum.splits)

lemma sameBackoff_onInvokeSettled: "sameBackoff s (onInvokeSettled opts frame out s)"
proof -
  have "sameBackoff s (s\<lparr> inflight := removeInflight frame (inflight s) \<rparr>)"
    by (simp add: sameBackoff_def)
  then show ?thesis
    using sameBackoff_invokeSettled [of "s\<lparr> inflight := removeInflight frame (inflight s) \<rparr>" opts frame out]
    by (auto simp: onInvokeSettled_def intro: sameBackoff_trans)
qed

text \<open>A response either leaves the backoff alone or completes the handshake.\<close>

lemma handleResponse_backoff:
  "sameBackoff s (fst (handleResponse parsed s))
   \<or> (closed (fst (handleResponse parsed s)) = closed s
        \<and> reconnectDelays (fst (handleResponse parsed s)) = reconnectDelays s
        \<and> backoffMs (fst (handleResponse parsed s)) = 1000
        \<and> stateChanges (fst (handleResponse parsed s)) = stateChanges s @ [Connected])"
proof -
  have r: "\<And>k s1. sameBackoff s s1 \<Longrightarrow> sameBackoff s (onRejected k s1)"
    using sameBackoff_onRejected sameBackoff_trans by blast
  have f: "\<And>i. sameBackoff s (s\<lparr> pending := filter (\<lambda>(k', _). k' \<noteq> i) (pending s) \<rparr>)"
    by (simp add: sameBackoff_def)
  show ?thesis
    by (auto simp: handleResponse_def Let_def onResolved_def setState_def r f
        split: json.splits option.splits pending_kind.splits sum.splits)
qed

lemma handleMessage_backoff:
  "sameBackoff s (fst (handleMessage opts parsed now s))
   \<or> (closed (fst (handleMessage opts parsed now s)) = closed s
        \<and> reconnectDelays (fst (handleMessage opts parsed now s)) = reconnectDelays s
        \<and> backoffMs (fst (handleMessage opts parsed now s)) = 1000
        \<and> stateChanges (fst (handleMessage opts parsed now s)) = stateChanges s @ [Connected])"
proof -
  have c: "\<And>n. sameBackoff s (sendConnect opts now (s\<lparr> connectNonce := Some n \<rparr>))"
  proof -
    fix n
    have "sameBackoff s (s\<lparr> connectNonce := Some n \<rparr>)" by (simp add: sameBackoff_def)
    then show "sameBackoff s (sendConnect opts now (s\<lparr> connectNonce := Some n \<rparr>))"
      using sameBackoff_sendConnect sameBackoff_trans by blast
  qed
  have i: "\<And>frame. sameBackoff s (handleInvoke opts frame s)"
    by (simp add: handleInvoke_def sameBackoff_def)
  show ?thesis
    using handleResponse_backoff [of s parsed]
    by (auto simp: handleMessage_def Let_def c i split: json.splits option.splits)
qed


lemma step_close_backoff:
  assumes "\<not> closed s"
  shows "\<not> closed (step opts s (WsClosed code))
       \<and> reconnectDelays (step opts s (WsClosed code)) = reconnectDelays s @ [backoffMs s]
       \<and> backoffMs (step opts s (WsClosed code)) = min (backoffMs s * 2) 30000
       \<and> stateChanges (step opts s (WsClosed code)) = stateChanges s @ [Disconnected]"
proof -
  have "sameBackoff s (s\<lparr> ws := None \<rparr>)" by (simp add: sameBackoff_def)
  then have "sameBackoff s (flushPending (s\<lparr> ws := None \<rparr>))"
    using sameBackoff_flushPending sameBackoff_trans by blast
  then show ?thesis
    using assms by (simp add: onClose_def scheduleReconnect_def setState_def sameBackoff_def)
qed

text \<open>
  An event other than a close and a stop schedules no reconnect; it leaves the backoff
  as it is, unless it completes the handshake, which sets it to 1000.
\<close>

lemma step_other_backoff:
  assumes "e \<noteq> Stop" and "\<not> isClose e" and "\<not> closed s"
  shows "\<not> closed (step opts s e)
       \<and> reconnectDelays (step opts s e) = reconnectDelays s
       \<and> ((backoffMs (step opts s e) = backoffMs s
             \<and> (stateChanges (step opts s e) = stateChanges s
                  \<or> stateChanges (step opts s e) = stateChanges s @ [Connecting]))
           \<or> (backoffMs (step opts s e) = 1000
               \<and> stateChanges (step opts s e) = stateChanges s @ [Connected]))"
proof (cases e)
  case Start
  then show ?thesis by (simp add: startClient_def connect_def setState_def Let_def)
next
  case Stop
  with assms show ?thesis by simp
next
  case ReconnectTimer
  then show ?thesis using assms by (simp add: connect_def setState_def Let_def)
next
  case WsOpened
  then show ?thesis using assms by (simp add: onOpen_def queueConnect_def)
next
  case (WsMessage raw now)
  show ?thesis
  proof (cases "env_jsonParse opts raw")
    case None
    with WsMessage assms show ?thesis by (simp add: onMessage_def)
  next
    case (Some parsed)
    then have "step opts s e = fst (handleMessage opts parsed now s)"
      using WsMessage by (simp add: onMessage_def)
    then show ?thesis
      using handleMessage_backoff [of s opts parsed now] assms
      by (auto simp: sameBackoff_def)
  qed
next
  case (WsClosed code)
  with assms show ?thesis by (simp add: isClose_def)
next
  case (WsError m)
  with assms show ?thesis by simp
next
  case (ConnectTimer now)
  then show ?thesis
    using sameBackoff_sendConnect [of s opts now] assms by (simp add: sameBackoff_def)
next
  case (InvokeSettled frame out)
  then show ?thesis
    using sameBackoff_onInvokeSettled [of s opts frame out] assms by (simp add: sameBackoff_def)
qed

lemma backoffDelay_spec_Suc:
  "backoffDelay_spec (Suc k) = min (backoffDelay_spec k * 2) 30000"
  by (simp add: backoffDelay_spec_def min_def)

lemma backoffDelay_spec_mono: "backoffDelay_spec k \<le> backoffDelay_spec (Suc k)"
  by (simp add: backoffDelay_spec_def min_def)

lemma backoffDelay_spec_sorted: "sorted (map backoffDelay_spec [j..<j + n])"
proof -
  have "\<And>a b. a \<le> b \<Longrightarrow> backoffDelay_spec a \<le> backoffDelay_spec b"
    by (simp add: backoffDelay_spec_def min_def) (metis one_le_numeral power_increasing le_trans)
  then show ?thesis
    by (simp add: sorted_map sorted_wrt_iff_nth_less) 
qed

lemma upt_shift: "[j..<j + Suc n] = j # [Suc j..<Suc j + n]"
  by (simp add: upt_rec)

lemma run_Cons: "run opts s (e # evs) = run opts (step opts s e) evs"
  by (simp add: run_def)

lemma run_stateChanges_from_open:
  assumes "Stop \<notin> set evs" and "\<not> closed s"
  shows "\<exists>l. stateChanges (run opts s evs) = stateChanges s @ l"
  using assms
proof (induction evs arbitrary: s)
  case Nil
  show ?case by (simp add: run_def)
next
  case (Cons e evs)
  have ne: "e \<noteq> Stop" using Cons.prems by auto
  have "\<not> closed (step opts s e) \<and> (\<exists>l. stateChanges (step opts s e) = stateChanges s @ l)"
  proof (cases "isClose e")
    case True
    then obtain code where "e = WsClosed code" by (cases e) (simp_all add: isClose_def)
    then show ?thesis using step_close_backoff [OF Cons.prems(2), of opts code] by simp
  next
    case False
    then show ?thesis using step_other_backoff [OF ne False Cons.prems(2), of opts] by auto
  qed
  moreover from this have "\<exists>l. stateChanges (run opts (step opts s e) evs) = stateChanges (step opts s e) @ l"
    using Cons.IH [of "step opts s e"] Cons.prems by simp
  ultimately show ?case by (auto simp: run_Cons)
qed

lemma run_consecutive_failures:
  assumes "\<not> closed s" and "backoffMs s = backoffDelay_spec j" and "Stop \<notin> set evs"
    and "Connected \<notin> set (drop (length (stateChanges s)) (stateChanges (run opts s evs)))"
  shows "reconnectDelays (run opts s evs) =
           reconnectDelays s @ map backoffDelay_spec [j..<j + length (filter isClose evs)]"
  using assms
proof (induction evs arbitrary: s j)
  case Nil
  show ?case by (simp add: run_def)
next
  case (Cons e evs)
  let ?s1 = "step opts s e"
  have ne: "e \<noteq> Stop" and nst: "Stop \<notin> set evs" using Cons.prems by auto
  show ?case
  proof (cases "isClose e")
    case True
    then obtain code where e: "e = WsClosed code" by (cases e) (simp_all add: isClose_def)
    note c = step_close_backoff [OF Cons.prems(1), of opts code]
    have nc: "\<not> closed ?s1" using c e by simp
    obtain l where l: "stateChanges (run opts ?s1 evs) = stateChanges ?s1 @ l"
      using run_stateChanges_from_open [OF nst nc] by blast
    have noC: "Connected \<notin> set (drop (length (stateChanges ?s1)) (stateChanges (run opts ?s1 evs)))"
      using Cons.prems(4) l c e by (simp add: run_Cons)
    have b: "backoffMs ?s1 = backoffDelay_spec (Suc j)"
      using c e Cons.prems(2) by (simp add: backoffDelay_spec_Suc)
    have "reconnectDelays (run opts ?s1 evs) =
            reconnectDelays ?s1 @ map backoffDelay_spec [Suc j..<Suc j + length (filter isClose evs)]"
      by (rule Cons.IH [OF nc b nst noC])
    moreover have "length (filter isClose (e # evs)) = Suc (length (filter isClose evs))"
      using True by simp
    moreover have "reconnectDelays ?s1 = reconnectDelays s @ [backoffDelay_spec j]"
      using c e Cons.prems(2) by simp
    ultimately show ?thesis
      by (simp only: run_Cons upt_shift list.map append_assoc append_Cons append_Nil)
  next
    case False
    note o = step_other_backoff [OF ne False Cons.prems(1), of opts]
    have nc: "\<not> closed ?s1" using o by simp
    obtain l where l: "stateChanges (run opts ?s1 evs) = stateChanges ?s1 @ l"
      using run_stateChanges_from_open [OF nst nc] by blast
    have notConn: "stateChanges ?s1 \<noteq> stateChanges s @ [Connected]"
    proof
      assume a: "stateChanges ?s1 = stateChanges s @ [Connected]"
      then have "stateChanges (run opts s (e # evs)) = stateChanges s @ Connected # l"
        using l by (simp add: run_Cons)
      with Cons.prems(4) show False by simp
    qed
    have b: "backoffMs ?s1 = backoffDelay_spec j"
      using o notConn Cons.prems(2) by auto
    have noC: "Connected \<notin> set (drop (length (stateChanges ?s1)) (stateChanges (run opts ?s1 evs)))"
    proof -
      from o notConn have "stateChanges ?s1 = stateChanges s \<or> stateChanges ?s1 = stateChanges s @ [Connecting]"
        by auto
      then show ?thesis
        using Cons.prems(4) l by (auto simp: run_Cons)
    qed
    have "reconnectDelays (run opts ?s1 evs) =
            reconnectDelays ?s1 @ map backoffDelay_spec [j..<j + length (filter isClose evs)]"
      by (rule Cons.IH [OF nc b nst noC])
    then show ?thesis
      using o False by (simp add: run_Cons)
  qed
qed


lemmas client_eval =
  run_def startClient_def stop_def connect_def onOpen_def onMessage_def onClose_def
  onInvokeSettled_def handleMessage_def handleResponse_def handleInvoke_def invokeParams_def
  coerceInvokePayload_def trimmedString_def sendConnect_def queueConnect_def request_def
  flushPending_def scheduleReconnect_def setState_def closeWs_def onResolved_def onRejected_def
  invokeSettled_def sendInvokeResult_def sendInternalError_def internalError_def
  thrownMessage_def messageOf_def newClient_def uuidString_def joinPipe_def
  exampleOpts_def exampleParse_def challengeText_def helloText_def invokeText_def
  malformedText_def exampleFrame_def jget_def truthy_def trim_def isWhiteSpace_def
  intToString_def Let_def lit_Cons lit_Nil

section \<open>Reconnect backoff\<close>

text \<open>
  Claim C3. A new client has a backoff of 1000 ms. Every close of the connection, while
  the client has not been stopped, schedules a reconnect after the current backoff and
  then doubles the backoff, capping it at 30000 ms. So over any run of events in which
  the client is not stopped and no handshake succeeds, starting with a backoff of
  1000 ms, the delays scheduled are 1000, 2000, 4000, 8000, 16000, 30000, 30000, ...,
  one per close: a non-decreasing sequence between 1000 and 30000. The gateway's
  definitive positive answer to the handshake request sets the backoff to 1000 ms again.
\<close>

theorem reconnect_backoff:
  "backoffMs (newClient instanceId) = 1000
   \<and> backoffDelay_spec 0 = 1000
   \<and> backoffDelay_spec (Suc k) = min (backoffDelay_spec k * 2) 30000
   \<and> (\<not> closed s \<longrightarrow>
        reconnectDelays (step opts s (WsClosed code)) = reconnectDelays s @ [backoffMs s]
        \<and> backoffMs (step opts s (WsClosed code)) = min (backoffMs s * 2) 30000)
   \<and> (\<not> closed s' \<and> backoffMs s' = 1000 \<and> Stop \<notin> set evs
        \<and> Connected \<notin> set (drop (length (stateChanges s')) (stateChanges (run opts s' evs))) \<longrightarrow>
        reconnectDelays (run opts s' evs) =
          reconnectDelays s' @ map backoffDelay_spec [0..<length (filter isClose evs)])
   \<and> sorted (map backoffDelay_spec [0..<n])
   \<and> list_all (\<lambda>d. 1000 \<le> d \<and> d \<le> 30000) (map backoffDelay_spec [0..<n])
   \<and> (env_jsonParse opts raw = Some parsed \<and> jget parsed (lit ''type'') = JStr (lit ''res'')
        \<and> jget parsed (lit ''event'') = JUndefined \<and> jget parsed (lit ''id'') = JStr ident
        \<and> map_of (pending s'') ident = Some PConnect
        \<and> jget (jget parsed (lit ''payload'')) (lit ''status'') \<noteq> JStr (lit ''accepted'')
        \<and> truthy (jget parsed (lit ''ok'')) \<longrightarrow>
        backoffMs (step opts s'' (WsMessage raw now)) = 1000
        \<and> state (step opts s'' (WsMessage raw now)) = Connected)"
proof -
  have 1: "backoffMs (newClient instanceId) = 1000"
    by (simp add: newClient_def)
  have 2: "backoffDelay_spec 0 = 1000"
    by (simp add: backoffDelay_spec_def)
  have 4: "reconnectDelays (step opts s (WsClosed code)) = reconnectDelays s @ [backoffMs s]
        \<and> backoffMs (step opts s (WsClosed code)) = min (backoffMs s * 2) 30000"
    if "\<not> closed s"
    using step_close_backoff [OF that, of opts code] by simp
  have 5: "reconnectDelays (run opts s' evs) =
          reconnectDelays s' @ map backoffDelay_spec [0..<length (filter isClose evs)]"
    if "\<not> closed s'" "backoffMs s' = 1000" "Stop \<notin> set evs"
      "Connected \<notin> set (drop (length (stateChanges s')) (stateChanges (run opts s' evs)))"
    using run_consecutive_failures [of s' 0 evs opts] that 2 by simp
  have 6: "sorted (map backoffDelay_spec [0..<n])"
    using backoffDelay_spec_sorted [of 0 n] by simp
  have 7: "list_all (\<lambda>d. 1000 \<le> d \<and> d \<le> 30000) (map backoffDelay_spec [0..<n])"
    by (simp add: list_all_iff backoffDelay_spec_def)
  have 8: "backoffMs (step opts s'' (WsMessage raw now)) = 1000
        \<and> state (step opts s'' (WsMessage raw now)) = Connected"
    if "env_jsonParse opts raw = Some parsed" "jget parsed (lit ''type'') = JStr (lit ''res'')"
      "jget parsed (lit ''event'') = JUndefined" "jget parsed (lit ''id'') = JStr ident"
      "map_of (pending s'') ident = Some PConnect"
      "jget (jget parsed (lit ''payload'')) (lit ''status'') \<noteq> JStr (lit ''accepted'')"
      "truthy (jget parsed (lit ''ok''))"
  proof -
    have "parsed \<noteq> JNull" using that(2) by (auto simp: jget_def)
    moreover have "\<not> truthy JUndefined" by (simp add: truthy_def)
    moreover have "JStr (lit ''res'') \<noteq> JStr (lit ''event'')" by (simp add: lit_Cons lit_Nil)
    ultimately show ?thesis
      using that
      by (simp add: onMessage_def handleMessage_def handleResponse_def Let_def onResolved_def
          setState_def)
  qed
  show ?thesis
    using 1 2 backoffDelay_spec_Suc [of k] 4 5 6 7 8 by blast
qed

theorem reconnect_backoff_witness:
  "reconnectDelays (run exampleOpts (newClient (lit ''node-1''))
       [Start, WsError (lit ''refused''), WsClosed 1006, ReconnectTimer, WsClosed 1006,
        ReconnectTimer, WsOpened, ConnectTimer 5, WsClosed 1008]) = [1000, 2000, 4000]
   \<and> backoffMs (run exampleOpts (newClient (lit ''node-1''))
       [Start, WsError (lit ''refused''), WsClosed 1006, ReconnectTimer, WsClosed 1006,
        ReconnectTimer, WsOpened, ConnectTimer 5, WsClosed 1008]) = 8000
   \<and> backoffMs (step exampleOpts
        (run exampleOpts (newClient (lit ''node-1''))
           [Start, WsClosed 1006, ReconnectTimer, WsOpened, ConnectTimer 5])
        (WsMessage helloText 6)) = 1000"
proof -
  let ?s0 = "newClient (lit ''node-1'')"
  let ?evs = "[Start, WsError (lit ''refused''), WsClosed 1006, ReconnectTimer, WsClosed 1006,
        ReconnectTimer, WsOpened, ConnectTimer 5, WsClosed 1008]"
  let ?s2 = "run exampleOpts ?s0 [Start, WsClosed 1006, ReconnectTimer, WsOpened, ConnectTimer 5]"
  let ?parsed = "JObj [(lit ''type'', JStr (lit ''res'')), (lit ''id'', JStr (lit ''uuid-0'')),
                    (lit ''ok'', JBool True), (lit ''payload'', JObj [])]"
  have a: "\<not> closed ?s0" "backoffMs ?s0 = 1000" "reconnectDelays ?s0 = []"
    by (simp_all add: newClient_def)
  have b: "Stop \<notin> set ?evs"
    by simp
  have c: "stateChanges (run exampleOpts ?s0 ?evs) =
             [Connecting, Disconnected, Connecting, Disconnected, Connecting, Disconnected]"
    by (simp add: client_eval)
  have c': "Connected \<notin> set (drop (length (stateChanges ?s0)) (stateChanges (run exampleOpts ?s0 ?evs)))"
    unfolding c by (simp add: newClient_def)
  have d: "map backoffDelay_spec [0..<length (filter isClose ?evs)] = [1000, 2000, 4000]"
    by (simp add: isClose_def backoffDelay_spec_def upt_rec)
  have e: "backoffMs (run exampleOpts ?s0 ?evs) = 8000"
    by (simp add: client_eval)
  have p: "env_jsonParse exampleOpts helloText = Some ?parsed"
    by (simp add: exampleOpts_def exampleParse_def challengeText_def helloText_def lit_Cons lit_Nil)
  have q: "jget ?parsed (lit ''type'') = JStr (lit ''res'')" "jget ?parsed (lit ''event'') = JUndefined"
    "jget ?parsed (lit ''id'') = JStr (lit ''uuid-0'')"
    "jget (jget ?parsed (lit ''payload'')) (lit ''status'') \<noteq> JStr (lit ''accepted'')"
    "truthy (jget ?parsed (lit ''ok''))"
    by (simp_all add: jget_def truthy_def lit_Cons lit_Nil)
  have pend: "pending ?s2 = [(lit ''uuid-0'', PConnect)]"
    by (simp add: client_eval)
  have m: "map_of (pending ?s2) (lit ''uuid-0'') = Some PConnect"
    unfolding pend by simp
  note t = reconnect_backoff [of "lit ''node-1''" 0 ?s0 exampleOpts 1006 ?s0 ?evs 3 helloText
      ?parsed "lit ''uuid-0''" ?s2 6]
  show ?thesis
    using t a b c' d e p q m by simp
qed

lemma quietHS_refl [simp]: "quietHS s s"
  by (simp add: quietHS_def)










lemma list_all_filter_pending:
  "list_all (\<lambda>(_, k). k \<noteq> PConnect) m \<Longrightarrow>
     list_all (\<lambda>(_, k). k \<noteq> PConnect) (filter (\<lambda>(k', _). k' \<noteq> i) m)"
  by (induction m) auto


lemma quietHS_pending_filter:
  "quietHS s (s\<lparr> pending := filter (\<lambda>(k', _). k' \<noteq> i) (pending s) \<rparr>)"
  by (simp add: quietHS_def connectCount_def noPConnect_def list_all_filter_pending)

lemma quietHS_onResolved_result: "quietHS s (onResolved PInvokeResult s)"
  by (simp add: onResolved_def)

lemma quietHS_onRejected_result: "quietHS s (onRejected PInvokeResult s)"
  by (simp add: onRejected_def)

lemma connectSent_onResolved [simp]: "connectSent (onResolved k s) = connectSent s"
  by (cases k) (simp_all add: onResolved_def setState_def)

lemma connectSent_onRejected [simp]: "connectSent (onRejected k s) = connectSent s"
  by (cases k) (simp_all add: onRejected_def closeWs_def split: option.splits)

lemma connectCount_onResolved [simp]: "connectCount (onResolved k s) = connectCount s"
  by (cases k) (simp_all add: onResolved_def setState_def connectCount_def)

lemma connectCount_onRejected [simp]: "connectCount (onRejected k s) = connectCount s"
  by (cases k) (simp_all add: onRejected_def closeWs_def connectCount_def split: option.splits)

lemma connectCount_pending_update [simp]: "connectCount (s\<lparr> pending := p \<rparr>) = connectCount s"
  by (simp add: connectCount_def)



lemma connectSent_foldl_onRejected:
  "connectSent (foldl (\<lambda>s' (_, k). onRejected k s') s ps) = connectSent s
   \<and> connectCount (foldl (\<lambda>s' (_, k). onRejected k s') s ps) = connectCount s"
  by (induction ps arbitrary: s) (auto split: prod.splits)

lemma connectSent_flushPending [simp]: "connectSent (flushPending s) = connectSent s"
  by (simp add: flushPending_def connectSent_foldl_onRejected)

lemma connectCount_flushPending [simp]: "connectCount (flushPending s) = connectCount s"
  by (simp add: flushPending_def connectSent_foldl_onRejected)




lemma challenge_not_invoke: "JStr (lit ''connect.challenge'') \<noteq> JStr (lit ''node.invoke.request'')"
  by (simp add: lit_Cons lit_Nil)



lemma setState_sameHS [simp]:
  "connectSent (setState x s) = connectSent s" "connectCount (setState x s) = connectCount s"
  by (simp_all add: setState_def connectCount_def)

lemma scheduleReconnect_sameHS [simp]:
  "connectSent (scheduleReconnect s) = connectSent s"
  "connectCount (scheduleReconnect s) = connectCount s"
  by (simp_all add: scheduleReconnect_def connectCount_def)
















section \<open>Handshake\<close>




section \<open>Inbound invocations\<close>

lemma invoke_event_truthy: "truthy (JStr (lit ''node.invoke.request''))"
  by (simp add: truthy_def lit_Cons)

lemma invoke_not_challenge: "JStr (lit ''node.invoke.request'') \<noteq> JStr (lit ''connect.challenge'')"
  by (simp add: lit_Cons lit_Nil)

lemma handleMessage_invoke_request:
  assumes "jget parsed (lit ''event'') = JStr (lit ''node.invoke.request'')"
  shows "handleMessage opts parsed now s =
           (case coerceInvokePayload opts (jget parsed (lit ''payload'')) of
              None \<Rightarrow> (s, None)
            | Some frame \<Rightarrow> (handleInvoke opts frame s, None))"
proof -
  have "parsed \<noteq> JNull" using assms by (auto simp: jget_def)
  then show ?thesis
    using assms invoke_event_truthy invoke_not_challenge
    by (simp add: handleMessage_def Let_def)
qed

lemma coerceInvokePayload_malformed:
  assumes "trimmedString (jget payload (lit ''id'')) = []
           \<or> trimmedString (jget payload (lit ''nodeId'')) = []
           \<or> trimmedString (jget payload (lit ''command'')) = []"
  shows "coerceInvokePayload opts payload = None"
  using assms by (cases payload) (auto simp: coerceInvokePayload_def Let_def)


text \<open>
  Claim C2. An invocation-request event whose id, nodeId or command is missing, is not a
  string, or is empty once trimmed changes nothing in the client: no call of
  \<open>onInvoke\<close> is made and no frame is sent.
\<close>

theorem malformed_invoke_dropped:
  assumes "jget parsed (lit ''event'') = JStr (lit ''node.invoke.request'')"
    and "trimmedString (jget (jget parsed (lit ''payload'')) (lit ''id'')) = []
         \<or> trimmedString (jget (jget parsed (lit ''payload'')) (lit ''nodeId'')) = []
         \<or> trimmedString (jget (jget parsed (lit ''payload'')) (lit ''command'')) = []"
  shows "handleMessage opts parsed now s = (s, None)
       \<and> (env_jsonParse opts raw = Some parsed \<longrightarrow>
            step opts s (WsMessage raw now) = s
            \<and> invoked (step opts s (WsMessage raw now)) = invoked s
            \<and> sent (step opts s (WsMessage raw now)) = sent s)"
  using handleMessage_invoke_request [OF assms(1), of opts now s]
    coerceInvokePayload_malformed [OF assms(2), of opts]
  by (simp add: onMessage_def)

theorem malformed_invoke_dropped_witness:
  "trimmedString (JStr (lit ''  '')) = []
   \<and> env_jsonParse exampleOpts malformedText \<noteq> None
   \<and> run exampleOpts (newClient (lit ''node-1'')) [Start, WsOpened, WsMessage malformedText 5]
       = run exampleOpts (newClient (lit ''node-1'')) [Start, WsOpened]"
proof -
  let ?parsed = "JObj [(lit ''type'', JStr (lit ''event'')),
                    (lit ''event'', JStr (lit ''node.invoke.request'')),
                    (lit ''payload'', JObj [(lit ''id'', JStr (lit ''  '')),
                                           (lit ''nodeId'', JStr (lit ''n1'')),
                                           (lit ''command'', JStr (lit ''vscode.git.status''))])]"
  let ?s = "run exampleOpts (newClient (lit ''node-1'')) [Start, WsOpened]"
  have p: "env_jsonParse exampleOpts malformedText = Some ?parsed"
    by (simp add: exampleOpts_def exampleParse_def challengeText_def helloText_def invokeText_def
        malformedText_def lit_Cons lit_Nil)
  have e: "jget ?parsed (lit ''event'') = JStr (lit ''node.invoke.request'')"
    by (simp add: jget_def lit_Cons lit_Nil)
  have i: "jget (jget ?parsed (lit ''payload'')) (lit ''id'') = JStr (lit ''  '')"
    by (simp add: jget_def lit_Cons lit_Nil)
  have t: "trimmedString (JStr (lit ''  '')) = []"
    by (simp add: trimmedString_def trim_def isWhiteSpace_def lit_Cons lit_Nil)
  have r: "run exampleOpts (newClient (lit ''node-1'')) [Start, WsOpened, WsMessage malformedText 5]
       = step exampleOpts ?s (WsMessage malformedText 5)"
    by (simp add: run_def)
  show ?thesis
    using malformed_invoke_dropped [of ?parsed exampleOpts 5 ?s malformedText] p e i t
    unfolding r by simp
qed





lemma sendInvokeResult_throws:
  "sendInvokeResult opts frame result s = Inl e \<Longrightarrow> result = JNull \<or> result = JUndefined"
  by (auto simp: sendInvokeResult_def Let_def split: if_splits)



lemma inflight_request [simp]: "inflight (request m p k s) = inflight s"
  by (cases k) (simp_all add: request_def onRejected_def closeWs_def Let_def split: option.splits)

lemma inflight_sendInvokeResult:
  "sendInvokeResult opts frame result s = Inr s' \<Longrightarrow> inflight s' = inflight s"
  by (auto simp: sendInvokeResult_def Let_def split: if_splits)

lemma inflight_sendInternalError [simp]:
  "inflight (sendInternalError opts frame err s) = inflight s"
  by (auto simp: sendInternalError_def inflight_sendInvokeResult split: sum.splits)

lemma inflight_invokeSettled [simp]: "inflight (invokeSettled opts frame out s) = inflight s"
  by (auto simp: invokeSettled_def inflight_sendInvokeResult split: outcome.splits sum.splits)





section \<open>File editing\<close>

lemma indexOf_empty: "indexOf fullText [] pos = Some (min pos (length fullText))"
proof -
  have "\<And>i. indexOfFrom xs [] i = Some i" for xs :: jsstring
    by (cases xs) simp_all
  then show ?thesis by (simp add: indexOf_def)
qed

lemma findRanges_empty_oldText: "findRanges fuel fullText [] pos ranges = None"
proof (induction fuel arbitrary: pos ranges)
  case 0
  show ?case by simp
next
  case (Suc fuel)
  then show ?case by (simp add: indexOf_empty)
qed

lemma indexOfFrom_bounds:
  "indexOfFrom xs t i = Some j \<Longrightarrow> i \<le> j \<and> (j - i) + length t \<le> length xs"
proof (induction xs arbitrary: i)
  case Nil
  then show ?case by (auto split: if_splits)
next
  case (Cons c cs)
  show ?case
  proof (cases "prefix t (c # cs)")
    case True
    then have "length t \<le> length (c # cs)" by (rule prefix_length_le)
    with Cons.prems True show ?thesis by simp
  next
    case False
    with Cons.prems have "indexOfFrom cs t (Suc i) = Some j" by simp
    from Cons.IH [OF this] show ?thesis by auto
  qed
qed

lemma indexOf_bounds:
  assumes "indexOf s t pos = Some idx" and "pos \<le> length s"
  shows "pos \<le> idx \<and> idx + length t \<le> length s"
proof -
  from assms have "indexOfFrom (drop pos s) t pos = Some idx"
    by (simp add: indexOf_def min_def)
  from indexOfFrom_bounds [OF this] assms(2) show ?thesis by auto
qed

text \<open>
  Where claim C9 holds. With a non-empty \<open>oldText\<close> the loop ends within
  \<open>length fullText + 1\<close> rounds; when \<open>oldText\<close> does not occur, \<open>fileEdit\<close> throws
  and leaves the documents as they are; in the example document two occurrences are
  replaced.
\<close>

lemma findRanges_terminates:
  assumes "oldText \<noteq> []" and "pos \<le> length fullText" and "length fullText - pos < fuel"
  shows "\<exists>found. findRanges fuel fullText oldText pos ranges = Some found"
  using assms(2,3)
proof (induction fuel arbitrary: pos ranges)
  case 0
  then show ?case by simp
next
  case (Suc fuel)
  show ?case
  proof (cases "indexOf fullText oldText pos")
    case None
    then show ?thesis by simp
  next
    case (Some idx)
    have l: "0 < length oldText" using assms(1) by simp
    from indexOf_bounds [OF Some Suc.prems(1)]
    have b: "pos \<le> idx" "idx + length oldText \<le> length fullText" by simp_all
    have "length fullText - (idx + length oldText) < fuel"
      using b l Suc.prems(2) by arith
    from Suc.IH [OF b(2) this] Some show ?thesis by simp
  qed
qed

lemma fileEdit_not_found:
  assumes "\<not> cfg_readOnly (fe_config env)"
    and "\<not> cfg_confirmWrites (fe_config env) \<or> fe_choice env = Some (lit ''Allow'')"
    and "resolveWorkspacePath (fe_workspaceFolders env) (fe_cwd env) path = Inr uri"
    and "fe_documents env uri = Inr fullText"
    and "indexOf fullText oldText 0 = None"
  shows "fileEdit (Suc fuel) env path oldText newText =
           (Some (Inl (Error (lit ''oldText not found in '' @ path))), fe_documents env)"
  using assms by (auto simp add: fileEdit_def)

lemma fileEdit_example:
  "fst (fileEdit 3 exampleFileEnv (lit ''a.txt'') (lit ''abc'') (lit ''x''))
     = Some (Inr \<lparr> er_ok = True, er_replacements = 2 \<rparr>)
   \<and> snd (fileEdit 3 exampleFileEnv (lit ''a.txt'') (lit ''abc'') (lit ''x'')) (lit ''/w/a.txt'')
     = Inr (lit ''x x'')
   \<and> fileEdit 1 exampleFileEnv (lit ''a.txt'') (lit ''abd'') (lit ''x'')
     = (Some (Inl (Error (lit ''oldText not found in a.txt''))), fe_documents exampleFileEnv)"
  by (simp add: fileEdit_def exampleFileEnv_def path_eval indexOf_def numeral_3_eq_3)

text \<open>
  Claim C9 does not hold of the code. With an empty \<open>oldText\<close> the search loop never
  ends: \<open>indexOf\<close> finds the empty string at \<open>searchStart\<close>, or at the end of the text
  once \<open>searchStart\<close> has reached it, and \<open>searchStart\<close>, set to the index found plus
  the length of \<open>oldText\<close>, does not advance. However many rounds are allowed,
  \<open>fileEdit\<close> has not returned: it neither throws nor replaces anything.
\<close>

theorem fileEdit_empty_oldText_never_returns:
  "fileEdit fuel exampleFileEnv (lit ''a.txt'') [] newText = (None, fe_documents exampleFileEnv)"
proof -
  have "resolveWorkspacePath (Some [lit ''/w'']) (lit ''/'') (lit ''a.txt'') = Inr (lit ''/w/a.txt'')"
    by (simp add: path_eval)
  then show ?thesis
    by (simp add: fileEdit_def exampleFileEnv_def findRanges_empty_oldText)
qed

section \<open>Terminal\<close>















end
